theory Spec2Isabelle
  imports Main "HOL-Library.Sublist"
begin

section \<open>The bootstrap of a shiv archive (\<open>shiv/bootstrap/__init__.py\<close>)\<close>

text \<open>
  The development embeds the functions of \<open>shiv/bootstrap/__init__.py\<close> in HOL. What the
  module gets from the Python runtime (the process environment, the file system, the home
  directory, the outcome of running a script) is an explicit argument of the function that
  uses it; exceptions are values of type \<open>exc\<close>, returned as \<open>Inl\<close>.
\<close>

subsection \<open>Strings\<close>

text \<open>\<open>str.split(sep)\<close> for a separator of one character: \<open>"".split(":") == [""]\<close>.\<close>

fun split_on :: "char \<Rightarrow> string \<Rightarrow> string list" where
  "split_on c [] = [[]]"
| "split_on c (x # xs) =
     (if x = c then [] # split_on c xs
      else (case split_on c xs of
              w # ws \<Rightarrow> (x # w) # ws
            | [] \<Rightarrow> [[x]]))"

text \<open>\<open>sep.join(xs)\<close> for a separator of one character.\<close>

fun join_with :: "char \<Rightarrow> string list \<Rightarrow> string" where
  "join_with c [] = []"
| "join_with c [x] = x"
| "join_with c (x # y # ys) = x @ c # join_with c (y # ys)"

text \<open>\<open>s.rfind(c)\<close>: the index of the last occurrence, \<open>None\<close> for Python's \<open>-1\<close>.\<close>

fun rfind :: "char \<Rightarrow> string \<Rightarrow> nat option" where
  "rfind c [] = None"
| "rfind c (x # xs) =
     (case rfind c xs of
        Some i \<Rightarrow> Some (Suc i)
      | None \<Rightarrow> if x = c then Some 0 else None)"

text \<open>\<open>xs.index(x)\<close> for an element that occurs in \<open>xs\<close>: the index of its first occurrence.\<close>

definition py_index :: "'a list \<Rightarrow> 'a \<Rightarrow> nat" where
  "py_index xs x = length (takeWhile (\<lambda>y. y \<noteq> x) xs)"

text \<open>Python's truth value of an optional string: \<open>None\<close> and \<open>""\<close> are false.\<close>

definition truthy :: "string option \<Rightarrow> bool" where
  "truthy s = (case s of None \<Rightarrow> False | Some v \<Rightarrow> v \<noteq> [])"

subsection \<open>Paths\<close>

text \<open>
  A \<open>pathlib\<close> path of the POSIX flavour: whether it is anchored at the root, and its
  components below the anchor. \<open>parse_path\<close> is the constructor \<open>Path(s)\<close>, which drops
  empty components and \<open>.\<close> components; \<open>str_path\<close> is \<open>str(p)\<close>; \<open>joinpath p s\<close> is
  \<open>p / s\<close>, where an anchored right operand replaces the left one.
\<close>

datatype path = Path (anchored: bool) (components: "string list")

definition parse_path :: "string \<Rightarrow> path" where
  "parse_path s =
     Path (case s of [] \<Rightarrow> False | c # _ \<Rightarrow> c = CHR ''/'')
          (filter (\<lambda>p. p \<noteq> [] \<and> p \<noteq> ''.'') (split_on (CHR ''/'') s))"

definition str_path :: "path \<Rightarrow> string" where
  "str_path p =
     (if anchored p then CHR ''/'' # join_with (CHR ''/'') (components p)
      else if components p = [] then ''.''
      else join_with (CHR ''/'') (components p))"

definition join_paths :: "path \<Rightarrow> path \<Rightarrow> path" where
  "join_paths p q = (if anchored q then q else Path (anchored p) (components p @ components q))"

definition joinpath :: "path \<Rightarrow> string \<Rightarrow> path" where
  "joinpath p s = join_paths p (parse_path s)"

definition path_name :: "path \<Rightarrow> string" where
  "path_name p = (if components p = [] then [] else last (components p))"

definition path_parent :: "path \<Rightarrow> path" where
  "path_parent p = Path (anchored p) (butlast (components p))"

text \<open>
  \<open>PurePath.suffix\<close> and \<open>PurePath.stem\<close> (Python 3.8 to 3.13): with \<open>i = name.rfind(".")\<close>,
  the name is cut at \<open>i\<close> when \<open>0 < i < len(name) - 1\<close>.
\<close>

definition path_suffix :: "path \<Rightarrow> string" where
  "path_suffix p =
     (let name = path_name p in
      case rfind (CHR ''.'') name of
        None \<Rightarrow> []
      | Some i \<Rightarrow> if 0 < i \<and> Suc i < length name then drop i name else [])"

definition path_stem :: "path \<Rightarrow> string" where
  "path_stem p =
     (let name = path_name p in
      case rfind (CHR ''.'') name of
        None \<Rightarrow> name
      | Some i \<Rightarrow> if 0 < i \<and> Suc i < length name then take i name else name)"

text \<open>\<open>path.relative_to(root)\<close> succeeds when \<open>root\<close> is a leading part of \<open>path\<close>.\<close>

definition is_relative_to :: "path \<Rightarrow> string \<Rightarrow> bool" where
  "is_relative_to p root =
     (let r = parse_path root in
      anchored r = anchored p \<and> prefix (components r) (components p))"

subsection \<open>Errors and the configuration object\<close>

datatype exc =
    RuntimeError string
  | ValueError string
  | OSError string
  | ImportError string
  | SystemExit int
  | OtherError string

text \<open>
  The fields of \<open>Environment\<close> (module \<open>shiv.bootstrap.environment\<close>) that \<open>bootstrap\<close>
  reads. The class itself is not part of the file under study: its fields are taken as
  they are read there.
\<close>

record environment =
  entry_point :: "string option"
  script :: "string option"
  preamble :: "string option"
  root :: "string option"
  platform_root :: bool
  build_id :: string
  compile_pyc :: bool
  compile_workers :: int
  force_extract :: bool
  no_modify :: bool
  hashes :: "string \<rightharpoonup> string"
  extend_pythonpath :: bool
  interpreter :: bool

subsection \<open>The host\<close>

text \<open>
  What the resolver reads from the host: \<open>sys.platform\<close>, \<open>os.environ\<close>, the result of
  \<open>os.path.expanduser\<close> on a component that begins with \<open>~\<close> (\<open>None\<close> when no home directory
  can be determined), \<open>Path.exists\<close> and \<open>os.access(path, os.W_OK)\<close>.
\<close>

record host =
  os_platform :: string
  os_environ :: "string \<rightharpoonup> string"
  os_expand_tilde :: "string \<Rightarrow> string option"
  os_exists :: "path \<Rightarrow> bool"
  os_access_w :: "path \<Rightarrow> bool"

text \<open>\<open>str.strip()\<close> on ASCII white space.\<close>

definition is_space :: "char \<Rightarrow> bool" where
  "is_space c = (c \<in> {CHR '' '', CHR 0x09, CHR 0x0A, CHR 0x0B, CHR 0x0C, CHR 0x0D,
                       CHR 0x1C, CHR 0x1D, CHR 0x1E, CHR 0x1F})"

definition strip :: "string \<Rightarrow> string" where
  "strip s = rev (dropWhile is_space (rev (dropWhile is_space s)))"

text \<open>
  \<open>Path.expanduser\<close>: a path that is not anchored and whose first component begins with \<open>~\<close>
  has that component replaced by the home directory; \<open>RuntimeError\<close> when there is none.
  \<open>Path.home()\<close> is \<open>Path("~").expanduser()\<close>.
\<close>

definition expanduser :: "host \<Rightarrow> path \<Rightarrow> exc + path" where
  "expanduser h p =
     (case components p of
        [] \<Rightarrow> Inr p
      | first # rest \<Rightarrow>
          if \<not> anchored p \<and> prefix ''~'' first then
            (case os_expand_tilde h first of
               None \<Rightarrow> Inl (RuntimeError ''Could not determine home directory.'')
             | Some homedir \<Rightarrow>
                 Inr (Path (anchored (parse_path homedir))
                        (components (parse_path homedir) @ rest)))
          else Inr p)"

definition path_home :: "host \<Rightarrow> exc + path" where
  "path_home h = expanduser h (parse_path ''~'')"

subsection \<open>The cache path (lines 91 to 233)\<close>

text \<open>\<open>is_dir_writeable\<close>: the loop climbs to the nearest path that exists, or to the anchor.\<close>

function is_dir_writeable :: "host \<Rightarrow> path \<Rightarrow> bool" where
  "is_dir_writeable h p =
     (if \<not> os_exists h p \<and> path_parent p \<noteq> p
      then is_dir_writeable h (path_parent p)
      else os_access_w h p)"
  by pat_completeness auto
termination
proof (relation "measure (\<lambda>(h, p). length (components p))")
  fix h :: host and p :: path
  assume a: "\<not> os_exists h p \<and> path_parent p \<noteq> p"
  have "components p \<noteq> []"
  proof
    assume "components p = []"
    then have "path_parent p = p"
      by (cases p) (simp add: path_parent_def)
    with a show False by simp
  qed
  then show "((h, path_parent p), (h, p)) \<in> measure (\<lambda>(h, p). length (components p))"
    by (simp add: path_parent_def)
qed simp

definition is_system_path :: "string \<Rightarrow> path \<Rightarrow> bool option" where
  "is_system_path platform p =
     (if platform = ''linux''
      then Some (\<not> is_relative_to p ''/home'' \<and> \<not> is_relative_to p ''/root'')
      else if platform = ''darwin''
      then Some (\<not> is_relative_to p ''/Users'')
      else None)"

definition system_root :: "string \<Rightarrow> path option" where
  "system_root platform =
     (if platform = ''linux'' then Some (parse_path ''/var/cache'')
      else if platform = ''darwin'' then Some (parse_path ''/Library/Caches'')
      else None)"

definition env_or :: "host \<Rightarrow> string \<Rightarrow> string \<Rightarrow> string" where
  "env_or h var fallback =
     (let v = strip (case os_environ h var of Some v \<Rightarrow> v | None \<Rightarrow> [])
      in if v \<noteq> [] then v else fallback)"

definition user_root :: "host \<Rightarrow> exc + path option" where
  "user_root h =
     (let root =
        (if os_platform h = ''win32'' then Some (env_or h ''LOCALAPPDATA'' ''~/AppData/Local'')
         else if os_platform h = ''linux'' then Some (env_or h ''XDG_CACHE_HOME'' ''~/.cache'')
         else if os_platform h = ''darwin'' then Some ''~/Library/Caches''
         else None)
      in case root of
           None \<Rightarrow> Inr None
         | Some r \<Rightarrow>
             (case expanduser h (parse_path r) of
                Inl e \<Rightarrow> Inl e
              | Inr p \<Rightarrow> Inr (Some p)))"

function cache_path :: "host \<Rightarrow> path \<Rightarrow> string option \<Rightarrow> bool \<Rightarrow> string \<Rightarrow> exc + path"
  and platform_cache :: "host \<Rightarrow> path \<Rightarrow> string \<Rightarrow> exc + path option" where
  "cache_path h archive_path root_dir platform_compat bid =
     (case
        (case root_dir of
           Some rd \<Rightarrow>
             if rd \<noteq> [] then
               (case expanduser h
                       (parse_path
                          (if prefix ''$'' rd
                           then (case os_environ h (drop 1 rd) of
                                   Some v \<Rightarrow> v
                                 | None \<Rightarrow> drop 1 rd)
                           else rd)) of
                  Inl e \<Rightarrow> Inl e
                | Inr p \<Rightarrow> Inr (Some p))
             else if platform_compat then platform_cache h archive_path bid
             else Inr None
         | None \<Rightarrow>
             if platform_compat then platform_cache h archive_path bid
             else Inr None) of
        Inl e \<Rightarrow> Inl e
      | Inr chosen \<Rightarrow>
          (case (case chosen of
                   None \<Rightarrow>
                     (case path_home h of
                        Inl e \<Rightarrow> Inl e
                      | Inr home \<Rightarrow> Inr (joinpath home ''.shiv''))
                 | Some r \<Rightarrow> Inr r) of
             Inl e \<Rightarrow> Inl e
           | Inr r \<Rightarrow> Inr (joinpath r (path_name archive_path @ ''_'' @ bid))))"
| "platform_cache h archive_path bid =
     (case
        (if is_system_path (os_platform h) archive_path = Some True then
           (case system_root (os_platform h) of
              None \<Rightarrow> Inr None
            | Some system_base \<Rightarrow>
                (case cache_path h archive_path
                        (Some (str_path (joinpath system_base (path_name archive_path))))
                        False bid of
                   Inl e \<Rightarrow> Inl e
                 | Inr cache \<Rightarrow>
                     if os_exists h (joinpath cache ''site-packages'') \<or> is_dir_writeable h cache
                     then Inr (Some (joinpath system_base (path_name archive_path)))
                     else Inr None))
         else Inr None) of
        Inl e \<Rightarrow> Inl e
      | Inr (Some r) \<Rightarrow> Inr (Some r)
      | Inr None \<Rightarrow>
          (case user_root h of
             Inl e \<Rightarrow> Inl e
           | Inr None \<Rightarrow> Inr None
           | Inr (Some user_base) \<Rightarrow> Inr (Some (joinpath user_base (path_name archive_path)))))"
  by pat_completeness auto
termination
  by (relation "measure (\<lambda>x. case x of
        Inl (h, ap, rd, pc, bid) \<Rightarrow> if pc then 2 else 0
      | Inr _ \<Rightarrow> 1)") auto

declare cache_path.simps [simp del] platform_cache.simps [simp del]
  is_dir_writeable.simps [simp del]

subsection \<open>The extractor (lines 236 to 276 and 322 to 330)\<close>

text \<open>
  The file system as \<open>extract_site_packages\<close> sees and changes it: the paths that exist, and
  the operations performed so far, in order. Files and directories are not told apart, and
  file modes are not kept.
\<close>

datatype fs_op =
    Mkdir path
  | AcquireLock path
  | ReleaseLock path
  | Extract string path
  | Chmod path nat
  | CompileDir path int
  | Rmtree path
  | Move path path

record fs =
  fs_paths :: "path list"
  fs_log :: "fs_op list"

definition fs_exists :: "fs \<Rightarrow> path \<Rightarrow> bool" where
  "fs_exists s p = (p \<in> set (fs_paths s))"

definition under :: "path \<Rightarrow> path \<Rightarrow> bool" where
  "under dir p = (anchored p = anchored dir \<and> prefix (components dir) (components p))"

definition with_ancestors :: "path \<Rightarrow> path list" where
  "with_ancestors p = map (Path (anchored p)) (prefixes (components p))"

text \<open>\<open>parent.mkdir(parents=True, exist_ok=True)\<close>.\<close>

definition mkdir_parents :: "fs \<Rightarrow> path \<Rightarrow> fs" where
  "mkdir_parents s p =
     s\<lparr>fs_paths := fs_paths s @ with_ancestors p, fs_log := fs_log s @ [Mkdir p]\<rparr>"

text \<open>
  Modelled from the spec: the class \<open>FileLock\<close> of \<open>shiv.bootstrap.filelock\<close> is not part of
  the file under study. The lock is an exclusive advisory lock on the lock-file path, which
  taking the lock creates; it is released on every way out of the \<open>with\<close> block.
\<close>

definition acquire_lock :: "fs \<Rightarrow> path \<Rightarrow> fs" where
  "acquire_lock s lock =
     s\<lparr>fs_paths := fs_paths s @ [lock], fs_log := fs_log s @ [AcquireLock lock]\<rparr>"

definition release_lock :: "fs \<Rightarrow> path \<Rightarrow> fs" where
  "release_lock s lock = s\<lparr>fs_log := fs_log s @ [ReleaseLock lock]\<rparr>"

text \<open>
  \<open>archive.extract(filename, target_path_tmp)\<close>: the member is written below the directory,
  at its name without empty, \<open>.\<close> and \<open>..\<close> components, and the directories above it are
  created. The path written is returned.
\<close>

definition extract_target :: "path \<Rightarrow> string \<Rightarrow> path" where
  "extract_target dir filename =
     Path (anchored dir)
       (components dir @
        filter (\<lambda>c. c \<noteq> [] \<and> c \<noteq> ''.'' \<and> c \<noteq> ''..'') (split_on (CHR ''/'') filename))"

definition extract_member :: "fs \<Rightarrow> string \<Rightarrow> path \<Rightarrow> path \<times> fs" where
  "extract_member s filename dir =
     (let extracted = extract_target dir filename
      in (extracted,
          s\<lparr>fs_paths := fs_paths s @ with_ancestors extracted,
            fs_log := fs_log s @ [Extract filename dir]\<rparr>))"

definition chmod :: "fs \<Rightarrow> path \<Rightarrow> nat \<Rightarrow> fs" where
  "chmod s p mode = s\<lparr>fs_log := fs_log s @ [Chmod p mode]\<rparr>"

text \<open>
  \<open>compileall.compile_dir(dir, quiet=2, workers=n)\<close> raises \<open>ValueError\<close> for a negative number
  of workers. Otherwise it writes byte code below \<open>dir\<close> and returns whether every file
  compiled: \<open>compiler\<close> gives, for the paths below \<open>dir\<close>, the files written, relative to
  \<open>dir\<close>, and that flag.
\<close>

definition compile_dir ::
  "(path list \<Rightarrow> string list list \<times> bool) \<Rightarrow> fs \<Rightarrow> path \<Rightarrow> int \<Rightarrow> exc + bool \<times> fs" where
  "compile_dir compiler s dir workers =
     (if workers < 0 then Inl (ValueError ''workers must be greater or equal to 0'')
      else
        (let (written, ok) = compiler (filter (under dir) (fs_paths s))
         in Inr (ok,
              s\<lparr>fs_paths := fs_paths s
                     @ map (\<lambda>rel. Path (anchored dir) (components dir @ rel)) written,
                fs_log := fs_log s @ [CompileDir dir workers]\<rparr>)))"

text \<open>\<open>shutil.rmtree(path)\<close> on a path that exists.\<close>

definition rmtree :: "fs \<Rightarrow> path \<Rightarrow> fs" where
  "rmtree s p =
     s\<lparr>fs_paths := filter (\<lambda>q. \<not> under p q) (fs_paths s), fs_log := fs_log s @ [Rmtree p]\<rparr>"

text \<open>
  \<open>shutil.move(src, dst)\<close> to a destination that does not exist: a rename of \<open>src\<close> and of
  everything below it; an error when \<open>src\<close> does not exist.
\<close>

definition move :: "fs \<Rightarrow> path \<Rightarrow> path \<Rightarrow> exc + fs" where
  "move s src dst =
     (if \<not> fs_exists s src then Inl (OSError ''No such file or directory'')
      else Inr
        (s\<lparr>fs_paths :=
              map (\<lambda>q. if under src q
                       then Path (anchored dst)
                              (components dst @ drop (length (components src)) (components q))
                       else q)
                  (fs_paths s),
            fs_log := fs_log s @ [Move src dst]\<rparr>))"

text \<open>
  The loop of lines 260 to 266 over \<open>archive.infolist()\<close>: each entry is a file name and its
  \<open>external_attr\<close>.
\<close>

fun extract_entries :: "fs \<Rightarrow> (string \<times> nat) list \<Rightarrow> path \<Rightarrow> fs" where
  "extract_entries s [] target_path_tmp = s"
| "extract_entries s ((filename, external_attr) # rest) target_path_tmp =
     (if prefix ''site-packages'' filename then
        (let (extracted, s1) = extract_member s filename target_path_tmp
         in extract_entries (chmod s1 extracted (external_attr div 2 ^ 16)) rest target_path_tmp)
      else extract_entries s rest target_path_tmp)"

text \<open>
  \<open>extract_site_packages\<close> returns the exception that left it, if any, and the file system
  it leaves behind.
\<close>

definition extract_site_packages ::
  "(path list \<Rightarrow> string list list \<times> bool) \<Rightarrow> fs \<Rightarrow> (string \<times> nat) list \<Rightarrow> path \<Rightarrow> bool \<Rightarrow> int
     \<Rightarrow> bool \<Rightarrow> exc option \<times> fs" where
  "extract_site_packages compiler s archive target_path compile_pyc' compile_workers' force =
     (let parent = path_parent target_path;
          target_path_tmp = joinpath parent (path_name target_path @ ''.tmp'');
          lock = joinpath parent (''.'' @ path_name target_path @ ''_lock'');
          s1 = (if \<not> fs_exists s parent then mkdir_parents s parent else s);
          s2 = acquire_lock s1 lock
      in if \<not> fs_exists s2 target_path \<or> force then
           (let s3 = extract_entries s2 archive target_path_tmp
            in case (if compile_pyc'
                     then (case compile_dir compiler s3 target_path_tmp compile_workers' of
                             Inl e \<Rightarrow> Inl e
                           | Inr (ok, s4) \<Rightarrow> Inr s4)
                     else Inr s3) of
                 Inl e \<Rightarrow> (Some e, release_lock s3 lock)
               | Inr s4 \<Rightarrow>
                   (let s5 = (if fs_exists s4 target_path then rmtree s4 target_path else s4)
                    in case move s5 target_path_tmp target_path of
                         Inl e \<Rightarrow> (Some e, release_lock s5 lock)
                       | Inr s6 \<Rightarrow> (None, release_lock s6 lock)))
         else (None, release_lock s2 lock))"

text \<open>Lines 322 to 330 of \<open>bootstrap\<close>.\<close>

definition bootstrap_extract ::
  "(path list \<Rightarrow> string list list \<times> bool) \<Rightarrow> fs \<Rightarrow> (string \<times> nat) list \<Rightarrow> path \<Rightarrow> environment
     \<Rightarrow> exc option \<times> fs" where
  "bootstrap_extract compiler s archive site_packages env =
     (if \<not> fs_exists s site_packages \<or> force_extract env then
        extract_site_packages compiler s archive (path_parent site_packages)
          (compile_pyc env) (compile_workers env) (force_extract env)
      else (None, s))"

subsection \<open>Extending the search path (lines 279 to 294 and 332 to 349)\<close>

text \<open>
  \<open>get_first_sitedir_index\<close> scans \<open>sys.path\<close> and returns the index of the first entry whose
  stem is \<open>site-packages\<close> or \<open>dist-packages\<close>; falling off the loop returns \<open>None\<close>.
\<close>

definition is_sitedir :: "string \<Rightarrow> bool" where
  "is_sitedir part = (path_stem (parse_path part) \<in> {''site-packages'', ''dist-packages''})"

fun first_sitedir_from :: "nat \<Rightarrow> string list \<Rightarrow> nat option" where
  "first_sitedir_from i [] = None"
| "first_sitedir_from i (part # rest) =
     (if is_sitedir part then Some i else first_sitedir_from (Suc i) rest)"

definition get_first_sitedir_index :: "string list \<Rightarrow> nat option" where
  "get_first_sitedir_index sys_path = first_sitedir_from 0 sys_path"

text \<open>\<open>x or y\<close> on an optional index: \<open>None\<close> and \<open>0\<close> are both false in Python.\<close>

definition index_or :: "nat option \<Rightarrow> nat \<Rightarrow> nat" where
  "index_or x y = (case x of None \<Rightarrow> y | Some i \<Rightarrow> if i = 0 then y else i)"

text \<open>The slice \<open>xs[i:j]\<close> for indices that are not negative.\<close>

definition slice :: "'a list \<Rightarrow> nat \<Rightarrow> nat \<Rightarrow> 'a list" where
  "slice xs i j = drop i (take j xs)"

text \<open>
  Lines 332 to 349 of \<open>bootstrap\<close>. \<open>site.addsitedir\<close> appends to \<open>sys.path\<close> the directory
  and what its \<open>.pth\<close> files name: \<open>added\<close> is the list of the entries it appends. The
  function returns the reordered \<open>sys.path\<close> and \<open>new_paths\<close>.
\<close>

definition extend_sys_path :: "string list \<Rightarrow> string list \<Rightarrow> string list \<times> string list" where
  "extend_sys_path sys_path added =
     (let length0 = length sys_path;
          index = index_or (get_first_sitedir_index sys_path) length0;
          sys_path_before = sys_path;
          sys_path1 = sys_path @ added;
          sys_path2 = take index sys_path1 @ drop length0 sys_path1 @ slice sys_path1 index length0;
          new_paths = filter (\<lambda>p. p \<notin> set sys_path_before) sys_path2
      in (sys_path2, new_paths))"

text \<open>
  \<open>extend_python_path\<close>: \<open>pathsep\<close> is \<open>os.pathsep\<close>. \<open>sorted(set(xs), key=xs.index)\<close> sorts
  the distinct elements of \<open>xs\<close> by the index of their first occurrence; \<open>remdups xs\<close>
  enumerates the set, and the keys of distinct elements are distinct, so the result does
  not depend on the enumeration.
\<close>

definition python_path_entries :: "char \<Rightarrow> (string \<rightharpoonup> string) \<Rightarrow> string list" where
  "python_path_entries pathsep environ =
     (case environ ''PYTHONPATH'' of
        Some v \<Rightarrow> split_on pathsep v
      | None \<Rightarrow> [])"

definition merged_python_path :: "char \<Rightarrow> (string \<rightharpoonup> string) \<Rightarrow> string list \<Rightarrow> string list" where
  "merged_python_path pathsep environ additional_paths =
     (let python_path = python_path_entries pathsep environ @ additional_paths
      in sort_key (py_index python_path) (remdups python_path))"

definition extend_python_path ::
  "char \<Rightarrow> (string \<rightharpoonup> string) \<Rightarrow> string list \<Rightarrow> (string \<rightharpoonup> string)" where
  "extend_python_path pathsep environ additional_paths =
     environ(''PYTHONPATH'' \<mapsto> join_with pathsep (merged_python_path pathsep environ additional_paths))"

subsection \<open>The integrity check (lines 297 to 306)\<close>

text \<open>
  A directory tree, as the files below its root in the order in which a recursive walk
  finds them: each with its path relative to the root, as components, and its bytes.
  Every entry is a regular file that can be read.
\<close>

type_synonym tree = "(string list \<times> string) list"

text \<open>\<open>fnmatch\<close> of a file name against \<open>*.py\<close> (case-sensitive, as on POSIX).\<close>

definition matches_py :: "string \<Rightarrow> bool" where
  "matches_py name =
     (3 \<le> length name \<and> drop (length name - 3) name = ''.py'')"

text \<open>\<open>site_packages.rglob("**/*.py")\<close>: the entries of the walk whose name matches.\<close>

definition rglob_py :: "tree \<Rightarrow> tree" where
  "rglob_py t = filter (\<lambda>(rel, content). rel \<noteq> [] \<and> matches_py (last rel)) t"

definition modified_message :: "string \<Rightarrow> string" where
  "modified_message file =
     ''A Python source file has been modified! File: '' @ file @
     ''. Try again with SHIV_FORCE_EXTRACT=1 to overwrite the modified source file(s).''"

text \<open>
  \<open>ensure_no_modify\<close>: \<open>sha256_hex\<close> is \<open>hashlib.sha256(bytes).hexdigest()\<close>. The loop raises at
  the first file whose digest is not the value of \<open>hashes.get\<close> at its relative path;
  \<open>hashes.get\<close> is \<open>None\<close> for a path that is not a key, which no digest equals.
\<close>

fun check_files ::
  "(string \<Rightarrow> string) \<Rightarrow> path \<Rightarrow> (string \<rightharpoonup> string) \<Rightarrow> tree \<Rightarrow> exc + unit" where
  "check_files sha256_hex site_packages recorded [] = Inr ()"
| "check_files sha256_hex site_packages recorded ((rel, content) # rest) =
     (if Some (sha256_hex content) \<noteq> recorded (str_path (Path False rel))
      then Inl (RuntimeError
             (modified_message (str_path (join_paths site_packages (Path False rel)))))
      else check_files sha256_hex site_packages recorded rest)"

definition ensure_no_modify ::
  "(string \<Rightarrow> string) \<Rightarrow> tree \<Rightarrow> path \<Rightarrow> (string \<rightharpoonup> string) \<Rightarrow> exc + unit" where
  "ensure_no_modify sha256_hex t site_packages recorded =
     check_files sha256_hex site_packages recorded (rglob_py t)"

subsection \<open>Preamble and dispatch (lines 359 to 386)\<close>

text \<open>
  What \<open>bootstrap\<close> hands control to. \<open>run\<close> ends in \<open>sys.exit\<close>, so the interpreter is
  reached only when neither branch of the dispatch is taken.
\<close>

datatype action =
    InvokeEntryPoint string
  | RunScript path
  | ExecuteInterpreter

definition dispatch :: "environment \<Rightarrow> path \<Rightarrow> action" where
  "dispatch env site_packages =
     (if \<not> interpreter env then
        (case (entry_point env, truthy (script env)) of
           (Some ep, False) \<Rightarrow> InvokeEntryPoint ep
         | _ \<Rightarrow>
            (case script env of
               Some s \<Rightarrow> RunScript (joinpath (joinpath site_packages ''bin'') s)
             | None \<Rightarrow> ExecuteInterpreter))
      else ExecuteInterpreter)"

text \<open>
  The preamble step. \<open>run_path p\<close> is what \<open>runpy.run_path\<close> raises on the file \<open>p\<close>, if
  anything; \<open>subprocess_run p\<close> is what \<open>subprocess.run([p])\<close> does: it raises when the
  program cannot be started, and otherwise returns the completed process with its return
  code (negative when a signal ended it).
\<close>

definition run_preamble ::
  "(path \<Rightarrow> exc option) \<Rightarrow> (path \<Rightarrow> exc + int) \<Rightarrow> environment \<Rightarrow> path \<Rightarrow> exc + unit" where
  "run_preamble run_path subprocess_run env site_packages =
     (case preamble env of
        None \<Rightarrow> Inr ()
      | Some name \<Rightarrow>
          if name = [] then Inr ()
          else
            (let preamble_bin = joinpath (joinpath site_packages ''bin'') name in
             if path_suffix preamble_bin = ''.py'' then
               (case run_path preamble_bin of Some e \<Rightarrow> Inl e | None \<Rightarrow> Inr ())
             else
               (case subprocess_run preamble_bin of
                  Inl e \<Rightarrow> Inl e
                | Inr returncode \<Rightarrow> Inr ())))"

definition preamble_then_dispatch ::
  "(path \<Rightarrow> exc option) \<Rightarrow> (path \<Rightarrow> exc + int) \<Rightarrow> environment \<Rightarrow> path \<Rightarrow> exc + action" where
  "preamble_then_dispatch run_path subprocess_run env site_packages =
     (case run_preamble run_path subprocess_run env site_packages of
        Inl e \<Rightarrow> Inl e
      | Inr _ \<Rightarrow> Inr (dispatch env site_packages))"

subsection \<open>Notions used to state the properties\<close>

text \<open>Components as \<open>parse_path\<close> produces them.\<close>

definition wf_components :: "string list \<Rightarrow> bool" where
  "wf_components cs = (\<forall>x \<in> set cs. x \<noteq> [] \<and> x \<noteq> ''.'' \<and> CHR ''/'' \<notin> set x)"

text \<open>
  \<open>q\<close> is the nearest ancestor of \<open>p\<close> that exists, \<open>p\<close> itself included, or the anchor of
  \<open>p\<close> when none exists.
\<close>

definition nearest_extant :: "host \<Rightarrow> path \<Rightarrow> path \<Rightarrow> bool" where
  "nearest_extant h p q =
     (anchored q = anchored p \<and> prefix (components q) (components p)
      \<and> (os_exists h q \<or> components q = [])
      \<and> (\<forall>cs. prefix cs (components p) \<and> length (components q) < length cs
             \<longrightarrow> \<not> os_exists h (Path (anchored p) cs)))"

text \<open>The elements of a list in the order of their first occurrences, each once.\<close>

fun first_occurrences :: "'a list \<Rightarrow> 'a list" where
  "first_occurrences [] = []"
| "first_occurrences (x # xs) = x # filter (\<lambda>y. y \<noteq> x) (first_occurrences xs)"

text \<open>A file violates the recorded hashes.\<close>

definition violates :: "(string \<Rightarrow> string) \<Rightarrow> (string \<rightharpoonup> string) \<Rightarrow> string list \<times> string \<Rightarrow> bool" where
  "violates sha256_hex recorded f =
     (recorded (str_path (Path False (fst f))) \<noteq> Some (sha256_hex (snd f)))"

subsection \<open>Concrete inputs\<close>

definition host_linux :: host where
  "host_linux = \<lparr>os_platform = ''linux'', os_environ = Map.empty,
     os_expand_tilde = (\<lambda>c. if c = ''~'' then Some ''/home/u'' else None),
     os_exists = (\<lambda>p. p \<in> {Path True [], Path True [''var''], Path True [''var'', ''cache'']}),
     os_access_w = (\<lambda>p. p = Path True [''var'', ''cache''])\<rparr>"

definition host_env :: host where
  "host_env = host_linux\<lparr>os_environ := [''SHIV_ROOT'' \<mapsto> ''/opt/cache'']\<rparr>"

definition archive_usr :: path where
  "archive_usr = Path True [''usr'', ''local'', ''bin'', ''app.pyz'']"

definition archive_home :: path where
  "archive_home = Path True [''home'', ''u'', ''bin'', ''app.pyz'']"

definition cache_dir :: path where
  "cache_dir = Path True [''home'', ''u'', ''.shiv'', ''app.pyz_b1'']"

definition cache_site_packages :: path where
  "cache_site_packages = Path True [''home'', ''u'', ''.shiv'', ''app.pyz_b1'', ''site-packages'']"

definition fs0 :: fs where
  "fs0 = \<lparr>fs_paths = [Path True [], Path True [''home''], Path True [''home'', ''u'']],
          fs_log = []\<rparr>"

definition fs_published :: fs where
  "fs_published = \<lparr>fs_paths = [Path True [], Path True [''home''], Path True [''home'', ''u''],
       Path True [''home'', ''u'', ''.shiv''],
       Path True [''home'', ''u'', ''.shiv'', ''.app.pyz_b1_lock''],
       cache_dir, cache_site_packages],
     fs_log = []\<rparr>"

definition archive0 :: "(string \<times> nat) list" where
  "archive0 = [(''environment.json'', 2175008768), (''site-packages/app.py'', 2175008768),
               (''_bootstrap/__init__.py'', 2175008768)]"

definition compiler_fails :: "path list \<Rightarrow> string list list \<times> bool" where
  "compiler_fails files = ([], False)"

text \<open>A stand-in for the digest, to evaluate the check on concrete trees.\<close>

definition toy_digest :: "string \<Rightarrow> string" where
  "toy_digest bytes = rev bytes"

definition tree1 :: tree where
  "tree1 = [([''pkg'', ''__init__.py''], ''x = 1''),
            ([''pkg'', ''data.bin''], ''0101''),
            ([''pkg'', ''mod.py''], ''y = 3''),
            ([''tool.py''], ''z'')]"

definition hashes1 :: "string \<rightharpoonup> string" where
  "hashes1 = [''pkg/__init__.py'' \<mapsto> ''1 = x'', ''pkg/mod.py'' \<mapsto> ''2 = y'']"

definition env_both :: environment where
  "env_both = \<lparr>entry_point = Some ''app.main:run'', script = Some ''tool'', preamble = None,
     root = None, platform_root = False, build_id = ''b1'', compile_pyc = False,
     compile_workers = 0, force_extract = False, no_modify = False, hashes = Map.empty,
     extend_pythonpath = False, interpreter = False\<rparr>"

definition env_preamble_sh :: environment where
  "env_preamble_sh = env_both\<lparr>preamble := Some ''setup.sh'', script := None\<rparr>"

definition env_preamble_py :: environment where
  "env_preamble_py = env_both\<lparr>preamble := Some ''setup.py'', script := None\<rparr>"

section \<open>Properties\<close>

subsection \<open>The cache path\<close>

lemma split_on_not_Nil: "split_on c s \<noteq> []"
  by (induction s) (auto split: list.splits)

lemma split_on_no_sep: "c \<notin> set s \<Longrightarrow> split_on c s = [s]"
  by (induction s) auto

lemma split_on_elems: "x \<in> set (split_on c s) \<Longrightarrow> c \<notin> set x"
  by (induction s arbitrary: x) (auto split: if_splits list.splits)

lemma split_on_append_sep:
  "c \<notin> set x \<Longrightarrow> split_on c (x @ c # rest) = x # split_on c rest"
  by (induction x) auto

lemma split_on_join:
  "xs \<noteq> [] \<Longrightarrow> \<forall>x \<in> set xs. c \<notin> set x \<Longrightarrow> split_on c (join_with c xs) = xs"
proof (induction c xs rule: join_with.induct)
  case (1 c)
  then show ?case by simp
next
  case (2 c x)
  then show ?case by (simp add: split_on_no_sep)
next
  case (3 c x y ys)
  then show ?case by (simp add: split_on_append_sep)
qed

lemma wf_components_parse: "wf_components (components (parse_path s))"
  by (auto simp: wf_components_def parse_path_def dest: split_on_elems)

lemma wf_components_append:
  "wf_components (xs @ ys) \<longleftrightarrow> wf_components xs \<and> wf_components ys"
  by (auto simp: wf_components_def)

lemma filter_wf: "wf_components cs \<Longrightarrow> filter (\<lambda>p. p \<noteq> [] \<and> p \<noteq> ''.'') cs = cs"
  by (induction cs) (auto simp: wf_components_def)

lemma parse_str_anchored:
  assumes "wf_components cs"
  shows "parse_path (str_path (Path True cs)) = Path True cs"
proof (cases "cs = []")
  case True
  then show ?thesis by (simp add: parse_path_def str_path_def)
next
  case False
  with assms have "split_on (CHR ''/'') (join_with (CHR ''/'') cs) = cs"
    by (intro split_on_join) (auto simp: wf_components_def)
  with assms show ?thesis
    by (simp add: parse_path_def str_path_def filter_wf)
qed

lemma parse_single:
  "CHR ''/'' \<notin> set s \<Longrightarrow> s \<noteq> [] \<Longrightarrow> s \<noteq> ''.'' \<Longrightarrow> parse_path s = Path False [s]"
  by (cases s) (auto simp: parse_path_def split_on_no_sep)

lemma joinpath_single:
  assumes "CHR ''/'' \<notin> set s" and "s \<noteq> []" and "s \<noteq> ''.''"
  shows "joinpath r s = Path (anchored r) (components r @ [s])"
  using assms by (simp add: joinpath_def join_paths_def parse_single)

lemma expanduser_anchored: "anchored p \<Longrightarrow> expanduser h p = Inr p"
  by (simp add: expanduser_def split: list.splits)

lemma expanduser_cong:
  "os_expand_tilde h' = os_expand_tilde h \<Longrightarrow> expanduser h' p = expanduser h p"
  by (simp add: expanduser_def split: list.splits)

lemma cache_path_explicit:
  "rd \<noteq> [] \<Longrightarrow>
   cache_path h archive_path (Some rd) platform_compat bid =
     (case expanduser h
             (parse_path
                (if prefix ''$'' rd
                 then (case os_environ h (drop 1 rd) of Some v \<Rightarrow> v | None \<Rightarrow> drop 1 rd)
                 else rd)) of
        Inl e \<Rightarrow> Inl e
      | Inr p \<Rightarrow> Inr (joinpath p (path_name archive_path @ ''_'' @ bid)))"
  by (simp add: cache_path.simps split: sum.splits)

lemma str_path_anchored_not_Nil: "anchored p \<Longrightarrow> str_path p \<noteq> [] \<and> \<not> prefix ''$'' (str_path p)"
  by (simp add: str_path_def)

lemma system_root_anchored: "system_root pf = Some b \<Longrightarrow> anchored b \<and> wf_components (components b)"
  by (auto simp: system_root_def wf_components_parse split: if_splits) (simp_all add: parse_path_def)

lemma joinpath_anchored: "anchored b \<Longrightarrow> anchored (joinpath b s)"
  by (simp add: joinpath_def join_paths_def)

lemma joinpath_wf: "wf_components (components b) \<Longrightarrow> wf_components (components (joinpath b s))"
  by (simp add: joinpath_def join_paths_def wf_components_append wf_components_parse)

lemma candidate_cache:
  assumes "system_root (os_platform h) = Some b"
  shows "cache_path h ap (Some (str_path (joinpath b (path_name ap)))) False bid
           = Inr (joinpath (joinpath b (path_name ap)) (path_name ap @ ''_'' @ bid))"
proof -
  let ?r = "joinpath b (path_name ap)"
  from assms have a: "anchored ?r" and w: "wf_components (components ?r)"
    using system_root_anchored joinpath_anchored joinpath_wf by blast+
  have r: "parse_path (str_path ?r) = ?r"
    using parse_str_anchored [OF w] a by (cases ?r) simp
  show ?thesis
    using a str_path_anchored_not_Nil [OF a]
    by (simp add: cache_path_explicit r expanduser_anchored)
qed

lemma is_system_path_root: "is_system_path pf ap = Some True \<Longrightarrow> \<exists>b. system_root pf = Some b"
  by (auto simp: is_system_path_def system_root_def split: if_splits)

text \<open>
  C6, as the claim states it, fails: the configured root is not taken verbatim. The
  resolved string goes through \<open>Path(root_dir).expanduser()\<close>, so the root \<open>~/cache\<close> gives a
  directory below the home directory of the user, not below a directory named \<open>~\<close>.
\<close>

theorem cache_path_tilde_counterexample:
  "cache_path host_linux archive_usr (Some ''~/cache'') False ''b1''
     = Inr (Path True [''home'', ''u'', ''cache'', ''app.pyz_b1''])
   \<and> joinpath (parse_path ''~/cache'') (path_name archive_usr @ ''_'' @ ''b1'')
     = Path False [''~'', ''cache'', ''app.pyz_b1'']"
  by (simp add: cache_path_explicit expanduser_def parse_path_def host_linux_def joinpath_def
      join_paths_def path_name_def archive_usr_def)

text \<open>
  C6, amended: for a configured root that is not empty, the result does not depend on the
  platform flag, the platform, or the file system (the platform fallback is not
  consulted). The root, or for a root that begins with \<open>$\<close> the value of the environment
  variable it names, or the rest of the root when that variable is not set, is parsed as a
  path and a leading \<open>~\<close> component is expanded to a home directory (an error when there is
  none); a root string that begins with \<open>/\<close> is taken as it is. When the archive name and
  the build id contain no \<open>/\<close>, the path returned ends with the component
  \<open>name_buildid\<close>.
\<close>

theorem cache_path_explicit_root:
  assumes "rd \<noteq> []"
  shows "(\<forall>h' pc'. os_environ h' = os_environ h \<and> os_expand_tilde h' = os_expand_tilde h \<longrightarrow>
            cache_path h' ap (Some rd) pc' bid = cache_path h ap (Some rd) pc bid)
       \<and> (let s = (if prefix ''$'' rd
                   then (case os_environ h (drop 1 rd) of Some v \<Rightarrow> v | None \<Rightarrow> drop 1 rd)
                   else rd)
          in cache_path h ap (Some rd) pc bid
               = (case expanduser h (parse_path s) of
                    Inl e \<Rightarrow> Inl e
                  | Inr r \<Rightarrow> Inr (joinpath r (path_name ap @ ''_'' @ bid)))
           \<and> (prefix ''/'' s \<longrightarrow>
                cache_path h ap (Some rd) pc bid
                  = Inr (joinpath (parse_path s) (path_name ap @ ''_'' @ bid))))
       \<and> (CHR ''/'' \<notin> set (path_name ap) \<and> CHR ''/'' \<notin> set bid \<longrightarrow>
            (\<forall>p. cache_path h ap (Some rd) pc bid = Inr p \<longrightarrow>
               components p \<noteq> [] \<and> last (components p) = path_name ap @ ''_'' @ bid))"
proof (intro conjI allI impI)
  fix h' :: host and pc'
  assume "os_environ h' = os_environ h \<and> os_expand_tilde h' = os_expand_tilde h"
  then have "os_environ h' = os_environ h" and "expanduser h' = expanduser h"
    by (auto intro: expanduser_cong)
  then show "cache_path h' ap (Some rd) pc' bid = cache_path h ap (Some rd) pc bid"
    by (simp add: cache_path_explicit [OF assms])
next
  let ?s = "if prefix ''$'' rd
            then (case os_environ h (drop 1 rd) of Some v \<Rightarrow> v | None \<Rightarrow> drop 1 rd)
            else rd"
  have e: "cache_path h ap (Some rd) pc bid
      = (case expanduser h (parse_path ?s) of
           Inl e \<Rightarrow> Inl e
         | Inr r \<Rightarrow> Inr (joinpath r (path_name ap @ ''_'' @ bid)))"
    using assms by (rule cache_path_explicit)
  have "anchored (parse_path ?s)" if "prefix ''/'' ?s"
    using that by (cases ?s) (simp_all add: parse_path_def)
  then have "prefix ''/'' ?s \<longrightarrow> cache_path h ap (Some rd) pc bid
      = Inr (joinpath (parse_path ?s) (path_name ap @ ''_'' @ bid))"
    unfolding e by (simp add: expanduser_anchored)
  with e show "let s = ?s
      in cache_path h ap (Some rd) pc bid
           = (case expanduser h (parse_path s) of
                Inl e \<Rightarrow> Inl e
              | Inr r \<Rightarrow> Inr (joinpath r (path_name ap @ ''_'' @ bid)))
       \<and> (prefix ''/'' s \<longrightarrow>
            cache_path h ap (Some rd) pc bid
              = Inr (joinpath (parse_path s) (path_name ap @ ''_'' @ bid)))"
    unfolding Let_def by blast
next
  fix p
  assume a: "CHR ''/'' \<notin> set (path_name ap) \<and> CHR ''/'' \<notin> set bid"
    and r: "cache_path h ap (Some rd) pc bid = Inr p"
  have j: "joinpath q (path_name ap @ ''_'' @ bid)
      = Path (anchored q) (components q @ [path_name ap @ ''_'' @ bid])" for q
    using a by (intro joinpath_single) (auto simp: append_eq_Cons_conv)
  from r obtain q where "p = joinpath q (path_name ap @ ''_'' @ bid)"
    using assms by (auto simp: cache_path_explicit split: sum.splits)
  then have p: "p = Path (anchored q) (components q @ [path_name ap @ ''_'' @ bid])"
    by (simp only: j)
  show "components p \<noteq> []"
    unfolding p by simp
  show "last (components p) = path_name ap @ ''_'' @ bid"
    unfolding p by simp
qed

theorem cache_path_explicit_root_witness:
  "cache_path host_env archive_usr (Some ''$SHIV_ROOT'') True ''b1''
     = Inr (Path True [''opt'', ''cache'', ''app.pyz_b1''])
   \<and> cache_path (host_env\<lparr>os_platform := ''darwin''\<rparr>) archive_usr (Some ''$SHIV_ROOT'') False ''b1''
     = cache_path host_env archive_usr (Some ''$SHIV_ROOT'') True ''b1''
   \<and> cache_path host_env archive_usr (Some ''$UNSET'') True ''b1''
     = Inr (Path False [''UNSET'', ''app.pyz_b1''])"
proof -
  have n: "path_name archive_usr = ''app.pyz''"
    by (simp add: path_name_def archive_usr_def)
  have e: "os_environ host_env = [''SHIV_ROOT'' \<mapsto> ''/opt/cache'']"
    by (simp add: host_env_def)
  have p1: "parse_path ''/opt/cache'' = Path True [''opt'', ''cache'']"
    by (simp add: parse_path_def)
  have p2: "parse_path ''UNSET'' = Path False [''UNSET'']"
    by (simp add: parse_path_def)
  have j1: "joinpath (Path True [''opt'', ''cache'']) ''app.pyz_b1''
      = Path True [''opt'', ''cache'', ''app.pyz_b1'']"
    by (simp add: joinpath_def join_paths_def parse_path_def)
  have j2: "joinpath (Path False [''UNSET'']) ''app.pyz_b1'' = Path False [''UNSET'', ''app.pyz_b1'']"
    by (simp add: joinpath_def join_paths_def parse_path_def)
  have x1: "expanduser host_env (Path True [''opt'', ''cache'']) = Inr (Path True [''opt'', ''cache''])"
    by (simp add: expanduser_def)
  have x2: "expanduser host_env (Path False [''UNSET'']) = Inr (Path False [''UNSET''])"
    by (simp add: expanduser_def)
  have ne: "''$SHIV_ROOT'' \<noteq> []" "''$UNSET'' \<noteq> []"
    by simp_all
  have a: "cache_path host_env archive_usr (Some ''$SHIV_ROOT'') True ''b1''
      = Inr (Path True [''opt'', ''cache'', ''app.pyz_b1''])"
    using cache_path_explicit_root
      [where rd = "''$SHIV_ROOT''" and h = host_env and ap = archive_usr and pc = True
        and bid = "''b1''", OF ne(1), THEN conjunct2, THEN conjunct1]
    by (simp add: Let_def n e p1 j1 x1)
  have b: "cache_path (host_env\<lparr>os_platform := ''darwin''\<rparr>) archive_usr (Some ''$SHIV_ROOT'') False ''b1''
      = cache_path host_env archive_usr (Some ''$SHIV_ROOT'') True ''b1''"
    by (rule cache_path_explicit_root
      [where rd = "''$SHIV_ROOT''" and h = host_env and ap = archive_usr and pc = True
        and bid = "''b1''", OF ne(1), THEN conjunct1, rule_format]) simp
  have c: "cache_path host_env archive_usr (Some ''$UNSET'') True ''b1''
      = Inr (Path False [''UNSET'', ''app.pyz_b1''])"
    using cache_path_explicit_root
      [where rd = "''$UNSET''" and h = host_env and ap = archive_usr and pc = True
        and bid = "''b1''", OF ne(2), THEN conjunct2, THEN conjunct1]
    by (simp add: Let_def n e p2 j2 x2)
  from a b c show ?thesis by blast
qed

lemma path_parent_fix: "path_parent p = p \<longleftrightarrow> components p = []"
proof (cases p)
  case (Path a cs)
  then show ?thesis
    by (cases cs rule: rev_cases) (simp_all add: path_parent_def)
qed

lemma prefix_butlast_cases:
  "prefix cs xs \<Longrightarrow> cs = xs \<or> prefix cs (butlast xs)"
  by (metis prefix_order.dual_order.order_iff_strict prefix_snoc append_butlast_last_id
      prefix_Nil strict_prefix_def)

lemma is_dir_writeable_nearest:
  "\<exists>q. nearest_extant h p q \<and> is_dir_writeable h p = os_access_w h q"
proof (induction h p rule: is_dir_writeable.induct)
  case (1 h p)
  show ?case
  proof (cases "\<not> os_exists h p \<and> path_parent p \<noteq> p")
    case False
    then have "os_exists h p \<or> components p = []"
      by (auto simp: path_parent_fix)
    then have "nearest_extant h p p"
      by (auto simp: nearest_extant_def dest: prefix_length_le)
    moreover from False have "is_dir_writeable h p = os_access_w h p"
      by (subst is_dir_writeable.simps) auto
    ultimately show ?thesis by blast
  next
    case True
    from "1.IH" [OF True] obtain q where
      q: "nearest_extant h (path_parent p) q"
      and w: "is_dir_writeable h (path_parent p) = os_access_w h q"
      by blast
    from True have ne: "components p \<noteq> []" by (auto simp: path_parent_fix)
    have p_eq: "Path (anchored p) (components p) = p" by simp
    have "nearest_extant h p q"
      unfolding nearest_extant_def
    proof (intro conjI allI impI)
      show "anchored q = anchored p"
        using q by (simp add: nearest_extant_def path_parent_def)
      show "prefix (components q) (components p)"
      proof -
        from q have "prefix (components q) (butlast (components p))"
          by (simp add: nearest_extant_def path_parent_def)
        then show ?thesis
          using prefixeq_butlast [of "components p"] by (rule prefix_order.trans)
      qed
      show "os_exists h q \<or> components q = []"
        using q by (simp add: nearest_extant_def)
    next
      fix cs
      assume a: "prefix cs (components p) \<and> length (components q) < length cs"
      then consider "cs = components p" | "prefix cs (butlast (components p))"
        using prefix_butlast_cases by blast
      then show "\<not> os_exists h (Path (anchored p) cs)"
      proof cases
        case 1
        with True p_eq show ?thesis by simp
      next
        case 2
        with q a show ?thesis
          by (simp add: nearest_extant_def path_parent_def)
      qed
    qed
    moreover from True have "is_dir_writeable h p = is_dir_writeable h (path_parent p)"
      by (subst is_dir_writeable.simps) simp
    ultimately show ?thesis using w by auto
  qed
qed

lemma platform_cache_system:
  assumes "system_root (os_platform h) = Some b"
  shows "platform_cache h ap bid =
     (if is_system_path (os_platform h) ap = Some True
         \<and> (os_exists h (joinpath (joinpath (joinpath b (path_name ap))
                 (path_name ap @ ''_'' @ bid)) ''site-packages'')
            \<or> is_dir_writeable h (joinpath (joinpath b (path_name ap))
                 (path_name ap @ ''_'' @ bid)))
      then Inr (Some (joinpath b (path_name ap)))
      else (case user_root h of
              Inl e \<Rightarrow> Inl e
            | Inr None \<Rightarrow> Inr None
            | Inr (Some u) \<Rightarrow> Inr (Some (joinpath u (path_name ap)))))"
  by (subst platform_cache.simps) (simp add: assms candidate_cache)

lemma platform_cache_no_system:
  assumes "system_root (os_platform h) = None"
  shows "platform_cache h ap bid =
     (case user_root h of
        Inl e \<Rightarrow> Inl e
      | Inr None \<Rightarrow> Inr None
      | Inr (Some u) \<Rightarrow> Inr (Some (joinpath u (path_name ap))))"
  by (subst platform_cache.simps) (simp add: assms)

lemma system_root_linux: "system_root ''linux'' = Some (Path True [''var'', ''cache''])"
  by (simp add: system_root_def parse_path_def)

lemma user_root_host_linux: "user_root host_linux = Inr (Some (Path True [''home'', ''u'', ''.cache'']))"
  by (simp add: user_root_def host_linux_def env_or_def strip_def expanduser_def parse_path_def)

lemma is_system_path_usr: "is_system_path ''linux'' archive_usr = Some True"
  by (simp add: is_system_path_def is_relative_to_def parse_path_def archive_usr_def)

lemma is_system_path_home: "is_system_path ''linux'' archive_home = Some False"
  by (simp add: is_system_path_def is_relative_to_def parse_path_def archive_home_def)

lemma platform_cache_usr_eval:
  "platform_cache host_linux archive_usr ''b1'' = Inr (Some (Path True [''var'', ''cache'', ''app.pyz'']))"
proof -
  have w: "is_dir_writeable host_linux (Path True [''var'', ''cache'', ''app.pyz'', ''app.pyz_b1''])"
  proof -
    have e: "os_exists host_linux p
        = (p \<in> {Path True [], Path True [''var''], Path True [''var'', ''cache'']})" for p
      by (simp add: host_linux_def)
    have a: "os_access_w host_linux p = (p = Path True [''var'', ''cache''])" for p
      by (simp add: host_linux_def)
    show ?thesis
      by (simp add: is_dir_writeable.simps e a path_parent_def)
  qed
  have s: "system_root (os_platform host_linux) = Some (Path True [''var'', ''cache''])"
    by (simp add: host_linux_def system_root_linux)
  have n: "path_name archive_usr = ''app.pyz''"
    by (simp add: path_name_def archive_usr_def)
  have j1: "joinpath (Path True [''var'', ''cache'']) ''app.pyz'' = Path True [''var'', ''cache'', ''app.pyz'']"
    by (simp add: joinpath_def join_paths_def parse_path_def)
  have j2: "joinpath (Path True [''var'', ''cache'', ''app.pyz'']) ''app.pyz_b1''
      = Path True [''var'', ''cache'', ''app.pyz'', ''app.pyz_b1'']"
    by (simp add: joinpath_def join_paths_def parse_path_def)
  have p: "os_platform host_linux = ''linux''" by (simp add: host_linux_def)
  show ?thesis
    unfolding platform_cache_system [OF s] n
    using w by (simp add: j1 j2 p is_system_path_usr)
qed

lemma nearest_extant_usr:
  assumes "nearest_extant host_linux (Path True [''var'', ''cache'', ''app.pyz'', ''app.pyz_b1'']) q"
  shows "q = Path True [''var'', ''cache'']"
proof -
  have e: "os_exists host_linux p
      = (p \<in> {Path True [], Path True [''var''], Path True [''var'', ''cache'']})" for p
    by (simp add: host_linux_def)
  from assms have aq: "anchored q" and
    ex: "os_exists host_linux q \<or> components q = []" and
    far: "\<And>cs. prefix cs [''var'', ''cache'', ''app.pyz'', ''app.pyz_b1'']
        \<Longrightarrow> length (components q) < length cs \<Longrightarrow> \<not> os_exists host_linux (Path True cs)"
    by (simp_all add: nearest_extant_def)
  from far [of "[''var'', ''cache'']"] have "2 \<le> length (components q)"
    by (fastforce simp: e)
  with ex aq show ?thesis
    by (cases q) (auto simp: e)
qed

text \<open>
  C8: on a platform with a system-wide cache root \<open>b\<close>, \<open>platform_cache\<close> returns
  \<open>b / name\<close> exactly when the archive path is judged a system path and, for the candidate
  \<open>b / name / name_buildid\<close>, either its \<open>site-packages\<close> exists or \<open>os.access\<close> grants
  writing at the nearest existing ancestor of the candidate (the anchor when none exists);
  in every other case, and on a platform without a system-wide root, it returns the
  user-specific root joined with the archive name, if the platform has one.
\<close>

theorem platform_cache_choice:
  "let name = path_name ap;
       fallback = (case user_root h of
                     Inl e \<Rightarrow> Inl e
                   | Inr None \<Rightarrow> Inr None
                   | Inr (Some u) \<Rightarrow> Inr (Some (joinpath u name)))
   in (\<forall>b. system_root (os_platform h) = Some b \<longrightarrow>
         (\<exists>q. nearest_extant h (joinpath (joinpath b name) (name @ ''_'' @ bid)) q
            \<and> platform_cache h ap bid =
                (if is_system_path (os_platform h) ap = Some True
                    \<and> (os_exists h (joinpath (joinpath (joinpath b name) (name @ ''_'' @ bid))
                                      ''site-packages'')
                       \<or> os_access_w h q)
                 then Inr (Some (joinpath b name))
                 else fallback)))
    \<and> (system_root (os_platform h) = None \<longrightarrow> platform_cache h ap bid = fallback)"
proof -
  have a: "\<exists>q. nearest_extant h (joinpath (joinpath b (path_name ap)) (path_name ap @ ''_'' @ bid)) q
            \<and> platform_cache h ap bid =
                (if is_system_path (os_platform h) ap = Some True
                    \<and> (os_exists h (joinpath (joinpath (joinpath b (path_name ap))
                                      (path_name ap @ ''_'' @ bid)) ''site-packages'')
                       \<or> os_access_w h q)
                 then Inr (Some (joinpath b (path_name ap)))
                 else (case user_root h of
                         Inl e \<Rightarrow> Inl e
                       | Inr None \<Rightarrow> Inr None
                       | Inr (Some u) \<Rightarrow> Inr (Some (joinpath u (path_name ap)))))"
    if b: "system_root (os_platform h) = Some b" for b
  proof -
    obtain q where q: "nearest_extant h (joinpath (joinpath b (path_name ap)) (path_name ap @ ''_'' @ bid)) q"
      and w: "is_dir_writeable h (joinpath (joinpath b (path_name ap)) (path_name ap @ ''_'' @ bid))
               = os_access_w h q"
      using is_dir_writeable_nearest by blast
    show ?thesis
      using q platform_cache_system [OF b, of ap bid] unfolding w by blast
  qed
  show ?thesis
    unfolding Let_def using a platform_cache_no_system by blast
qed

theorem platform_cache_choice_witness:
  "platform_cache host_linux archive_home ''b1''
     = Inr (Some (Path True [''home'', ''u'', ''.cache'', ''app.pyz'']))
   \<and> platform_cache host_linux archive_usr ''b1''
     = Inr (Some (Path True [''var'', ''cache'', ''app.pyz'']))
   \<and> platform_cache (host_linux\<lparr>os_platform := ''win32''\<rparr>) archive_usr ''b1''
     = Inr (Some (Path True [''home'', ''u'', ''AppData'', ''Local'', ''app.pyz'']))"
proof -
  have p: "os_platform host_linux = ''linux''" by (simp add: host_linux_def)
  have n: "path_name archive_usr = ''app.pyz''" "path_name archive_home = ''app.pyz''"
    by (simp_all add: path_name_def archive_usr_def archive_home_def)
  have j0: "joinpath (Path True [''home'', ''u'', ''.cache'']) ''app.pyz''
      = Path True [''home'', ''u'', ''.cache'', ''app.pyz'']"
    by (simp add: joinpath_def join_paths_def parse_path_def)
  have j1: "joinpath (Path True [''var'', ''cache'']) ''app.pyz'' = Path True [''var'', ''cache'', ''app.pyz'']"
    by (simp add: joinpath_def join_paths_def parse_path_def)
  have j2: "joinpath (Path True [''var'', ''cache'', ''app.pyz'']) ''app.pyz_b1''
      = Path True [''var'', ''cache'', ''app.pyz'', ''app.pyz_b1'']"
    by (simp add: joinpath_def join_paths_def parse_path_def)
  have a: "os_access_w host_linux (Path True [''var'', ''cache''])"
    by (simp add: host_linux_def)
  have h1: "platform_cache host_linux archive_home ''b1''
      = Inr (Some (Path True [''home'', ''u'', ''.cache'', ''app.pyz'']))"
    using platform_cache_choice [of archive_home host_linux "''b1''"]
    by (simp add: Let_def p n system_root_linux is_system_path_home user_root_host_linux j0)
  have h2: "platform_cache host_linux archive_usr ''b1''
      = Inr (Some (Path True [''var'', ''cache'', ''app.pyz'']))"
    using platform_cache_choice [of archive_usr host_linux "''b1''"] a
    by (auto simp: Let_def p n system_root_linux is_system_path_usr j1 j2
        dest!: nearest_extant_usr)
  have w: "user_root (host_linux\<lparr>os_platform := ''win32''\<rparr>)
      = Inr (Some (Path True [''home'', ''u'', ''AppData'', ''Local'']))"
    by (simp add: user_root_def host_linux_def env_or_def strip_def expanduser_def parse_path_def)
  have j3: "joinpath (Path True [''home'', ''u'', ''AppData'', ''Local'']) ''app.pyz''
      = Path True [''home'', ''u'', ''AppData'', ''Local'', ''app.pyz'']"
    by (simp add: joinpath_def join_paths_def parse_path_def)
  have h3: "platform_cache (host_linux\<lparr>os_platform := ''win32''\<rparr>) archive_usr ''b1''
      = Inr (Some (Path True [''home'', ''u'', ''AppData'', ''Local'', ''app.pyz'']))"
    using platform_cache_choice [of archive_usr "host_linux\<lparr>os_platform := ''win32''\<rparr>" "''b1''"]
    by (simp add: Let_def n system_root_def w j3)
  from h1 h2 h3 show ?thesis by blast
qed

subsection \<open>The extractor\<close>

lemma extract_site_packages_skip:
  assumes "fs_exists s target_path" and "\<not> force"
  shows "extract_site_packages compiler s archive target_path cp cw force =
     (let parent = path_parent target_path;
          lock = joinpath parent (''.'' @ path_name target_path @ ''_lock'');
          s1 = (if \<not> fs_exists s parent then mkdir_parents s parent else s)
      in (None, release_lock (acquire_lock s1 lock) lock))"
proof -
  have "fs_exists (acquire_lock (mkdir_parents s p) l) target_path"
    and "fs_exists (acquire_lock s l) target_path" for p l
    using assms(1) by (simp_all add: fs_exists_def acquire_lock_def mkdir_parents_def)
  with assms(2) show ?thesis
    by (simp add: extract_site_packages_def Let_def)
qed

lemma cache_dir_names:
  "path_parent cache_dir = Path True [''home'', ''u'', ''.shiv'']"
  "path_name cache_dir = ''app.pyz_b1''"
  "joinpath (Path True [''home'', ''u'', ''.shiv'']) (''app.pyz_b1'' @ ''.tmp'')
     = Path True [''home'', ''u'', ''.shiv'', ''app.pyz_b1.tmp'']"
  "joinpath (Path True [''home'', ''u'', ''.shiv'']) (''.'' @ ''app.pyz_b1'' @ ''_lock'')
     = Path True [''home'', ''u'', ''.shiv'', ''.app.pyz_b1_lock'']"
  "joinpath (Path True [''home'', ''u'', ''.shiv'']) ''.app.pyz_b1_lock''
     = Path True [''home'', ''u'', ''.shiv'', ''.app.pyz_b1_lock'']"
  by (simp_all add: cache_dir_def path_parent_def path_name_def joinpath_def join_paths_def
      parse_path_def)

lemma extract_archive0:
  "extract_entries s archive0 dir =
     s\<lparr>fs_paths := fs_paths s @ with_ancestors (extract_target dir ''site-packages/app.py''),
       fs_log := fs_log s @ [Extract ''site-packages/app.py'' dir,
                   Chmod (extract_target dir ''site-packages/app.py'') 33188]\<rparr>"
  by (simp add: archive0_def extract_member_def chmod_def Let_def)

lemma in_with_ancestors: "q \<in> set (with_ancestors p) \<longleftrightarrow> under q p"
  by (cases q) (auto simp: with_ancestors_def under_def in_set_prefixes)

lemma under_refl: "under p p"
  by (simp add: under_def)

lemma extract_target_under: "under dir (extract_target dir f)"
  by (simp add: extract_target_def under_def)

lemma ancestors_extract_target:
  assumes "q \<in> set (with_ancestors (extract_target dir f))"
  shows "under q dir \<or> under dir q"
proof -
  from assms have "under q (extract_target dir f)" by (simp add: in_with_ancestors)
  moreover have "under dir (extract_target dir f)" by (rule extract_target_under)
  ultimately show ?thesis
    by (auto simp: under_def dest: prefix_same_cases)
qed

lemma extract_entries_log:
  "\<exists>ops. fs_log (extract_entries s archive dir) = fs_log s @ ops
     \<and> (\<forall>op \<in> set ops. (\<exists>f. op = Extract f dir) \<or> (\<exists>p m. op = Chmod p m))"
proof (induction archive arbitrary: s)
  case Nil
  show ?case by simp
next
  case (Cons e archive)
  obtain f attr where e: "e = (f, attr)" by (cases e)
  show ?case
  proof (cases "prefix ''site-packages'' f")
    case False
    with Cons.IH [of s] show ?thesis by (simp add: e)
  next
    case True
    let ?s1 = "chmod (snd (extract_member s f dir)) (fst (extract_member s f dir)) (attr div 2 ^ 16)"
    from Cons.IH [of ?s1] obtain ops where
      ops: "fs_log (extract_entries ?s1 archive dir) = fs_log ?s1 @ ops"
        "\<forall>op \<in> set ops. (\<exists>f. op = Extract f dir) \<or> (\<exists>p m. op = Chmod p m)"
      by blast
    have l1: "fs_log ?s1 = fs_log s @ [Extract f dir, Chmod (extract_target dir f) (attr div 2 ^ 16)]"
      by (simp add: chmod_def extract_member_def Let_def)
    have "extract_entries s (e # archive) dir = extract_entries ?s1 archive dir"
      using True by (simp add: e split_beta)
    with ops l1 show ?thesis
      by (intro exI [of _ "[Extract f dir, Chmod (extract_target dir f) (attr div 2 ^ 16)] @ ops"])
        auto
  qed
qed

lemma extract_entries_paths:
  "set (fs_paths s) \<subseteq> set (fs_paths (extract_entries s archive dir))
   \<and> (\<forall>q \<in> set (fs_paths (extract_entries s archive dir)).
        q \<in> set (fs_paths s) \<or> under q dir \<or> under dir q)
   \<and> (\<forall>(f, attr) \<in> set archive. prefix ''site-packages'' f \<longrightarrow>
        set (with_ancestors (extract_target dir f)) \<subseteq> set (fs_paths (extract_entries s archive dir)))"
proof (induction archive arbitrary: s)
  case Nil
  show ?case by simp
next
  case (Cons e archive)
  obtain f attr where e: "e = (f, attr)" by (cases e)
  show ?case
  proof (cases "prefix ''site-packages'' f")
    case False
    with Cons.IH [of s] show ?thesis by (auto simp: e)
  next
    case True
    let ?s1 = "chmod (snd (extract_member s f dir)) (fst (extract_member s f dir)) (attr div 2 ^ 16)"
    have p1: "fs_paths ?s1 = fs_paths s @ with_ancestors (extract_target dir f)"
      by (simp add: chmod_def extract_member_def Let_def)
    have r: "extract_entries s (e # archive) dir = extract_entries ?s1 archive dir"
      using True by (simp add: e split_beta)
    from Cons.IH [of ?s1] have
      a: "set (fs_paths ?s1) \<subseteq> set (fs_paths (extract_entries ?s1 archive dir))" and
      b: "\<forall>q \<in> set (fs_paths (extract_entries ?s1 archive dir)).
            q \<in> set (fs_paths ?s1) \<or> under q dir \<or> under dir q" and
      c: "\<forall>(f, attr) \<in> set archive. prefix ''site-packages'' f \<longrightarrow>
            set (with_ancestors (extract_target dir f))
              \<subseteq> set (fs_paths (extract_entries ?s1 archive dir))"
      by blast+
    have 1: "set (fs_paths s) \<subseteq> set (fs_paths (extract_entries s (e # archive) dir))"
      using a unfolding r p1 by auto
    have 2: "\<forall>q \<in> set (fs_paths (extract_entries s (e # archive) dir)).
        q \<in> set (fs_paths s) \<or> under q dir \<or> under dir q"
      using b ancestors_extract_target unfolding r p1 by auto
    have 3: "\<forall>(f, attr) \<in> set (e # archive). prefix ''site-packages'' f \<longrightarrow>
        set (with_ancestors (extract_target dir f))
          \<subseteq> set (fs_paths (extract_entries s (e # archive) dir))"
      using a c unfolding r p1 by (auto simp: e)
    from 1 2 3 show ?thesis by blast
  qed
qed

lemma sibling_paths:
  assumes "name \<noteq> []" and "CHR ''/'' \<notin> set name"
  shows "path_parent (Path a (pc @ [name])) = Path a pc"
    and "path_name (Path a (pc @ [name])) = name"
    and "joinpath (Path a pc) (name @ ''.tmp'') = Path a (pc @ [name @ ''.tmp''])"
    and "joinpath (Path a pc) (''.'' @ name @ ''_lock'') = Path a (pc @ [''.'' @ name @ ''_lock''])"
proof -
  show "path_parent (Path a (pc @ [name])) = Path a pc"
    by (simp add: path_parent_def)
  show "path_name (Path a (pc @ [name])) = name"
    by (simp add: path_name_def)
  have "name @ ''.tmp'' \<noteq> ''.''"
    using assms(1) by (cases name) auto
  then show "joinpath (Path a pc) (name @ ''.tmp'') = Path a (pc @ [name @ ''.tmp''])"
    using assms joinpath_single [of "name @ ''.tmp''" "Path a pc"] by simp
  show "joinpath (Path a pc) (''.'' @ name @ ''_lock'') = Path a (pc @ [''.'' @ name @ ''_lock''])"
    using assms joinpath_single [of "''.'' @ name @ ''_lock''" "Path a pc"] by simp
qed

lemma target_apart:
  assumes "name \<noteq> []"
  shows "\<not> under (Path a (pc @ [name])) (Path a (pc @ [name @ ''.tmp'']))"
    and "\<not> under (Path a (pc @ [name @ ''.tmp''])) (Path a (pc @ [name]))"
    and "Path a (pc @ [name]) \<noteq> Path a (pc @ [''.'' @ name @ ''_lock''])"
    and "\<not> under (Path a (pc @ [name])) (Path a pc)"
  using assms by (auto simp: under_def)

lemma extraction_publishes:
  assumes w: "cp \<longrightarrow> 0 \<le> workers"
    and t: "target_path = Path a (pc @ [name])" and n: "name \<noteq> []" "CHR ''/'' \<notin> set name"
    and c: "\<not> fs_exists s target_path \<or> force"
    and f: "(f, attr) \<in> set archive" "prefix ''site-packages'' f"
  shows "\<exists>pre s'.
           extract_site_packages compiler s archive target_path cp workers force = (None, s')
         \<and> fs_log s'
             = fs_log s @ pre
               @ (if cp then [CompileDir (Path a (pc @ [name @ ''.tmp''])) workers] else [])
               @ (if fs_exists s target_path then [Rmtree target_path] else [])
               @ [Move (Path a (pc @ [name @ ''.tmp''])) target_path,
                  ReleaseLock (Path a (pc @ [''.'' @ name @ ''_lock'']))]
         \<and> (prefix ''site-packages/'' f \<longrightarrow>
              fs_exists s' (Path a (pc @ [name, ''site-packages''])))"
proof -
  define parent where "parent = Path a pc"
  define tmp where "tmp = Path a (pc @ [name @ ''.tmp''])"
  define lock where "lock = Path a (pc @ [''.'' @ name @ ''_lock''])"
  define s1 where "s1 = (if \<not> fs_exists s parent then mkdir_parents s parent else s)"
  define s2 where "s2 = acquire_lock s1 lock"
  define s3 where "s3 = extract_entries s2 archive tmp"
  define s4 where "s4 = (if cp then s3\<lparr>fs_paths := fs_paths s3
      @ map (\<lambda>rel. Path (anchored tmp) (components tmp @ rel))
          (fst (compiler (filter (under tmp) (fs_paths s3)))),
      fs_log := fs_log s3 @ [CompileDir tmp workers]\<rparr> else s3)"
  define s5 where "s5 = (if fs_exists s4 target_path then rmtree s4 target_path else s4)"
  define s6 where "s6 = s5\<lparr>fs_paths :=
      map (\<lambda>q. if under tmp q
               then Path (anchored target_path)
                      (components target_path @ drop (length (components tmp)) (components q))
               else q) (fs_paths s5),
      fs_log := fs_log s5 @ [Move tmp target_path]\<rparr>"
  note sib = sibling_paths [OF n, of a pc]
  note apart = target_apart [OF n(1), of a pc]
  have not_anc: "\<not> under target_path q" if "under q tmp" for q
  proof
    assume "under target_path q"
    with that have "under target_path tmp"
      by (auto simp: under_def)
    with apart(1) show False by (simp add: t tmp_def)
  qed
  have not_below: "q \<noteq> target_path" if "under tmp q" for q
    using that apart(2) by (auto simp: t tmp_def)
  have e1: "fs_exists s1 target_path = fs_exists s target_path"
    using apart(4) by (auto simp: s1_def fs_exists_def mkdir_parents_def in_with_ancestors t parent_def)
  have e2: "fs_exists s2 target_path = fs_exists s target_path"
    using e1 apart(3) by (auto simp: s2_def fs_exists_def acquire_lock_def t lock_def)
  have e3: "fs_exists s3 target_path = fs_exists s target_path"
  proof -
    from extract_entries_paths [of s2 archive tmp] have
      mono: "set (fs_paths s2) \<subseteq> set (fs_paths s3)" and
      new: "\<forall>q \<in> set (fs_paths s3). q \<in> set (fs_paths s2) \<or> under q tmp \<or> under tmp q"
      unfolding s3_def by blast+
    have "target_path \<in> set (fs_paths s3) \<Longrightarrow> target_path \<in> set (fs_paths s2)"
      using new not_anc [of target_path] not_below [of target_path] by (auto simp: under_refl)
    with mono e2 show ?thesis by (auto simp: fs_exists_def)
  qed
  have e4: "fs_exists s4 target_path = fs_exists s target_path"
  proof -
    have "under tmp (Path (anchored tmp) (components tmp @ rel))" for rel
      by (simp add: under_def)
    then have "Path (anchored tmp) (components tmp @ rel) \<noteq> target_path" for rel
      using not_below by blast
    then show ?thesis
      using e3 by (auto simp: s4_def fs_exists_def)
  qed
  have tmp3: "tmp \<in> set (fs_paths s3)"
  proof -
    from extract_entries_paths [of s2 archive tmp] f have
      "set (with_ancestors (extract_target tmp f)) \<subseteq> set (fs_paths s3)"
      unfolding s3_def by blast
    moreover have "tmp \<in> set (with_ancestors (extract_target tmp f))"
      by (simp add: in_with_ancestors extract_target_under)
    ultimately show ?thesis by blast
  qed
  then have tmp4: "tmp \<in> set (fs_paths s4)" by (simp add: s4_def)
  have tmp5: "fs_exists s5 tmp"
    using tmp4 not_anc [of tmp] by (auto simp: s5_def fs_exists_def rmtree_def under_refl)
  have cd: "cp \<Longrightarrow> compile_dir compiler s3 tmp workers
      = Inr (snd (compiler (filter (under tmp) (fs_paths s3))), s4)"
    using w by (simp add: compile_dir_def s4_def split_beta Let_def)
  have mv: "move s5 tmp target_path = Inr s6"
    using tmp5 by (simp add: move_def s6_def)
  have go: "\<not> fs_exists s2 target_path \<or> force"
    using c e2 by simp
  have s43: "\<not> cp \<Longrightarrow> s4 = s3" by (simp add: s4_def)
  have res: "extract_site_packages compiler s archive target_path cp workers force
      = (None, release_lock s6 lock)"
    unfolding extract_site_packages_def t sib Let_def
    unfolding t [symmetric] parent_def [symmetric] tmp_def [symmetric] lock_def [symmetric]
      s1_def [symmetric]
    unfolding s2_def [symmetric]
    using go by (cases cp) (simp_all add: s3_def [symmetric] cd s43 [symmetric] s5_def [symmetric] mv)
  obtain ops where ops: "fs_log s3 = fs_log s2 @ ops"
    using extract_entries_log [of s2 archive tmp] unfolding s3_def by blast
  have l2: "fs_log s2 = fs_log s @ (if fs_exists s parent then [] else [Mkdir parent]) @ [AcquireLock lock]"
    by (simp add: s2_def s1_def acquire_lock_def mkdir_parents_def)
  have l5: "fs_log s5 = fs_log s4 @ (if fs_exists s target_path then [Rmtree target_path] else [])"
    by (simp add: s5_def e4 rmtree_def)
  have lg: "fs_log (release_lock s6 lock)
      = fs_log s @ ((if fs_exists s parent then [] else [Mkdir parent]) @ [AcquireLock lock] @ ops)
        @ (if cp then [CompileDir tmp workers] else [])
        @ (if fs_exists s target_path then [Rmtree target_path] else [])
        @ [Move tmp target_path, ReleaseLock lock]"
    by (simp add: release_lock_def s6_def l5 s4_def ops l2)
  have sp: "fs_exists (release_lock s6 lock) (Path a (pc @ [name, ''site-packages'']))"
    if pf: "prefix ''site-packages/'' f"
  proof -
    from pf obtain rest where fr: "f = ''site-packages'' @ CHR ''/'' # rest"
      by (auto simp: prefix_def)
    have "split_on (CHR ''/'') f = ''site-packages'' # split_on (CHR ''/'') rest"
      unfolding fr by (rule split_on_append_sep) simp
    then have et: "components (extract_target tmp f)
        = (pc @ [name @ ''.tmp'']) @ ''site-packages''
          # filter (\<lambda>c. c \<noteq> [] \<and> c \<noteq> ''.'' \<and> c \<noteq> ''..'') (split_on (CHR ''/'') rest)"
      by (simp add: extract_target_def tmp_def)
    let ?q = "Path a (pc @ [name @ ''.tmp'', ''site-packages''])"
    have "under ?q (extract_target tmp f)"
      by (simp add: under_def et) (simp add: extract_target_def tmp_def)
    then have "?q \<in> set (with_ancestors (extract_target tmp f))"
      by (simp add: in_with_ancestors)
    moreover from extract_entries_paths [of s2 archive tmp] f have
      "set (with_ancestors (extract_target tmp f)) \<subseteq> set (fs_paths s3)"
      unfolding s3_def by blast
    ultimately have q3: "?q \<in> set (fs_paths s3)" by blast
    then have q4: "?q \<in> set (fs_paths s4)" by (simp add: s4_def)
    have ut: "under tmp ?q" by (simp add: under_def tmp_def)
    have "\<not> under target_path ?q"
      using n(1) by (auto simp: under_def t)
    with q4 have q5: "?q \<in> set (fs_paths s5)"
      by (auto simp: s5_def rmtree_def)
    define rn where "rn = (\<lambda>q. if under tmp q
               then Path (anchored target_path)
                      (components target_path @ drop (length (components tmp)) (components q))
               else q)"
    have r1: "rn ?q = Path a (pc @ [name, ''site-packages''])"
      using ut by (simp add: rn_def t tmp_def)
    have r2: "fs_paths s6 = map rn (fs_paths s5)"
      by (simp add: s6_def rn_def)
    from q5 have "rn ?q \<in> rn ` set (fs_paths s5)"
      by (rule imageI)
    then have "Path a (pc @ [name, ''site-packages'']) \<in> set (fs_paths s6)"
      unfolding r1 r2 by simp
    then show ?thesis
      by (simp add: fs_exists_def release_lock_def)
  qed
  show ?thesis
    unfolding tmp_def [symmetric] lock_def [symmetric] res
    using lg sp by blast
qed

lemma second_run_no_writes:
  assumes sp: "site_packages = Path a (pc @ [name, ''site-packages''])"
    and n: "name \<noteq> []" "CHR ''/'' \<notin> set name"
    and f: "(f, attr) \<in> set archive" "prefix ''site-packages/'' f"
    and nf: "\<not> force_extract env"
    and w: "compile_pyc env \<longrightarrow> 0 \<le> compile_workers env"
    and fresh: "\<not> fs_exists s (path_parent site_packages)"
  shows "\<exists>s1. bootstrap_extract compiler s archive site_packages env = (None, s1)
           \<and> fs_exists s1 site_packages
           \<and> bootstrap_extract compiler s1 archive site_packages env = (None, s1)"
proof (cases "fs_exists s site_packages")
  case True
  with nf show ?thesis by (simp add: bootstrap_extract_def)
next
  case False
  have t: "path_parent site_packages = Path a (pc @ [name])"
    by (simp add: sp path_parent_def butlast_append)
  from fresh have c: "\<not> fs_exists s (path_parent site_packages) \<or> force_extract env" by simp
  from f(2) have f': "prefix ''site-packages'' f"
    by (auto simp: prefix_def)
  from extraction_publishes [OF w t n c f(1) f', of compiler] f(2)
  obtain s1 where
    r: "extract_site_packages compiler s archive (path_parent site_packages)
          (compile_pyc env) (compile_workers env) (force_extract env) = (None, s1)"
    and e: "fs_exists s1 site_packages"
    unfolding sp [symmetric] by auto
  from False r have "bootstrap_extract compiler s archive site_packages env = (None, s1)"
    by (simp add: bootstrap_extract_def)
  moreover from e nf have "bootstrap_extract compiler s1 archive site_packages env = (None, s1)"
    by (simp add: bootstrap_extract_def)
  ultimately show ?thesis using e by blast
qed

lemma target_exists_after_lock:
  assumes "name \<noteq> []"
  shows "fs_exists
           (acquire_lock
              (if \<not> fs_exists s (Path a pc) then mkdir_parents s (Path a pc) else s)
              (Path a (pc @ [''.'' @ name @ ''_lock''])))
           (Path a (pc @ [name]))
         = fs_exists s (Path a (pc @ [name]))"
  using target_apart(3,4) [OF assms, of a pc]
  by (auto simp: fs_exists_def acquire_lock_def mkdir_parents_def in_with_ancestors)

lemma extraction_aborts_when_compile_raises:
  assumes w: "workers < 0"
    and t: "target_path = Path a (pc @ [name])" and n: "name \<noteq> []" "CHR ''/'' \<notin> set name"
    and c: "\<not> fs_exists s target_path \<or> force"
  shows "\<exists>pre s'.
           extract_site_packages compiler s archive target_path True workers force
             = (Some (ValueError ''workers must be greater or equal to 0''), s')
         \<and> fs_log s' = fs_log s @ pre @ [ReleaseLock (Path a (pc @ [''.'' @ name @ ''_lock'']))]
         \<and> (\<forall>op \<in> set pre. (\<exists>p. op = Mkdir p) \<or> (\<exists>p. op = AcquireLock p)
                \<or> (\<exists>f d. op = Extract f d) \<or> (\<exists>p m. op = Chmod p m))"
proof -
  define parent where "parent = Path a pc"
  define tmp where "tmp = Path a (pc @ [name @ ''.tmp''])"
  define lock where "lock = Path a (pc @ [''.'' @ name @ ''_lock''])"
  define s1 where "s1 = (if \<not> fs_exists s parent then mkdir_parents s parent else s)"
  define s2 where "s2 = acquire_lock s1 lock"
  define s3 where "s3 = extract_entries s2 archive tmp"
  note sib = sibling_paths [OF n, of a pc]
  have e2: "fs_exists s2 target_path = fs_exists s target_path"
    unfolding s2_def s1_def parent_def lock_def t by (rule target_exists_after_lock [OF n(1)])
  have go: "\<not> fs_exists s2 target_path \<or> force"
    using c e2 by simp
  have cd: "compile_dir compiler s3 tmp workers
      = Inl (ValueError ''workers must be greater or equal to 0'')"
    using w by (simp add: compile_dir_def)
  have res: "extract_site_packages compiler s archive target_path True workers force
      = (Some (ValueError ''workers must be greater or equal to 0''), release_lock s3 lock)"
    unfolding extract_site_packages_def t sib Let_def
    unfolding t [symmetric] parent_def [symmetric] tmp_def [symmetric] lock_def [symmetric]
      s1_def [symmetric]
    unfolding s2_def [symmetric]
    using go by (simp add: s3_def [symmetric] cd)
  obtain ops where ops: "fs_log s3 = fs_log s2 @ ops"
    and kinds: "\<forall>op \<in> set ops. (\<exists>f. op = Extract f tmp) \<or> (\<exists>p m. op = Chmod p m)"
    using extract_entries_log [of s2 archive tmp] unfolding s3_def by blast
  have l2: "fs_log s2 = fs_log s @ (if fs_exists s parent then [] else [Mkdir parent]) @ [AcquireLock lock]"
    by (simp add: s2_def s1_def acquire_lock_def mkdir_parents_def)
  let ?pre = "(if fs_exists s parent then [] else [Mkdir parent]) @ [AcquireLock lock] @ ops"
  have lg: "fs_log (release_lock s3 lock) = fs_log s @ ?pre @ [ReleaseLock lock]"
    by (simp add: release_lock_def ops l2)
  have k: "\<forall>op \<in> set ?pre. (\<exists>p. op = Mkdir p) \<or> (\<exists>p. op = AcquireLock p)
                \<or> (\<exists>f d. op = Extract f d) \<or> (\<exists>p m. op = Chmod p m)"
    using kinds by auto
  show ?thesis
    unfolding lock_def [symmetric] res using lg k by blast
qed

text \<open>
  C5: when the target directory exists and \<open>force\<close> is false, \<open>extract_site_packages\<close> takes
  the lock and releases it, and performs no extraction, compilation, removal or rename: the
  only operations are the creation of the parent directory, if it is missing, and the two
  operations on the lock, and the only paths that come to exist are those and the lock
  file. When \<open>site-packages\<close> exists in the cache and extraction is not forced, \<open>bootstrap\<close>
  does not call the extractor at all and the file system is left as it is. That is the
  state a first run leaves: after a run on a cache directory that is absent, for an archive
  with an entry below \<open>site-packages/\<close>, \<open>site-packages\<close> exists in the cache, and a second run
  changes nothing.
\<close>

theorem extraction_skipped_when_published:
  "(fs_exists s target_path \<and> \<not> force \<longrightarrow>
      (let parent = path_parent target_path;
           lock = joinpath parent (''.'' @ path_name target_path @ ''_lock'');
           result = extract_site_packages compiler s archive target_path cp cw force
       in fst result = None
        \<and> fs_log (snd result)
            = fs_log s @ (if fs_exists s parent then [] else [Mkdir parent])
              @ [AcquireLock lock, ReleaseLock lock]
        \<and> set (fs_paths (snd result))
            = set (fs_paths s) \<union> (if fs_exists s parent then {} else set (with_ancestors parent))
              \<union> {lock}))
   \<and> (fs_exists s site_packages \<and> \<not> force_extract env \<longrightarrow>
        bootstrap_extract compiler s archive site_packages env = (None, s))
   \<and> (\<forall>a pc name f attr.
        site_packages = Path a (pc @ [name, ''site-packages''])
        \<and> name \<noteq> [] \<and> CHR ''/'' \<notin> set name
        \<and> (f, attr) \<in> set archive \<and> prefix ''site-packages/'' f
        \<and> \<not> force_extract env \<and> (compile_pyc env \<longrightarrow> 0 \<le> compile_workers env)
        \<and> \<not> fs_exists s (path_parent site_packages) \<longrightarrow>
        (\<exists>s1. bootstrap_extract compiler s archive site_packages env = (None, s1)
            \<and> fs_exists s1 site_packages
            \<and> bootstrap_extract compiler s1 archive site_packages env = (None, s1)))"
proof (intro conjI impI allI)
  assume a: "fs_exists s target_path \<and> \<not> force"
  then show "let parent = path_parent target_path;
           lock = joinpath parent (''.'' @ path_name target_path @ ''_lock'');
           result = extract_site_packages compiler s archive target_path cp cw force
       in fst result = None
        \<and> fs_log (snd result)
            = fs_log s @ (if fs_exists s parent then [] else [Mkdir parent])
              @ [AcquireLock lock, ReleaseLock lock]
        \<and> set (fs_paths (snd result))
            = set (fs_paths s) \<union> (if fs_exists s parent then {} else set (with_ancestors parent))
              \<union> {lock}"
    by (simp add: extract_site_packages_skip Let_def release_lock_def acquire_lock_def
        mkdir_parents_def)
next
  assume "fs_exists s site_packages \<and> \<not> force_extract env"
  then show "bootstrap_extract compiler s archive site_packages env = (None, s)"
    by (simp add: bootstrap_extract_def)
next
  fix a pc name f attr
  assume h: "site_packages = Path a (pc @ [name, ''site-packages''])
        \<and> name \<noteq> [] \<and> CHR ''/'' \<notin> set name
        \<and> (f, attr) \<in> set archive \<and> prefix ''site-packages/'' f
        \<and> \<not> force_extract env \<and> (compile_pyc env \<longrightarrow> 0 \<le> compile_workers env)
        \<and> \<not> fs_exists s (path_parent site_packages)"
  then show "\<exists>s1. bootstrap_extract compiler s archive site_packages env = (None, s1)
            \<and> fs_exists s1 site_packages
            \<and> bootstrap_extract compiler s1 archive site_packages env = (None, s1)"
    using second_run_no_writes [of site_packages a pc name f attr archive env s compiler]
    by blast
qed

theorem extraction_skipped_when_published_witness:
  "extract_site_packages compiler_fails fs_published archive0 cache_dir True 0 False
     = (None, fs_published\<lparr>
          fs_paths := fs_paths fs_published @ [Path True [''home'', ''u'', ''.shiv'', ''.app.pyz_b1_lock'']],
          fs_log := [AcquireLock (Path True [''home'', ''u'', ''.shiv'', ''.app.pyz_b1_lock'']),
                     ReleaseLock (Path True [''home'', ''u'', ''.shiv'', ''.app.pyz_b1_lock''])]\<rparr>)
   \<and> bootstrap_extract compiler_fails fs_published archive0 cache_site_packages env_both
     = (None, fs_published)
   \<and> (\<exists>s1. bootstrap_extract compiler_fails fs0 archive0 cache_site_packages env_both = (None, s1)
          \<and> fs_exists s1 cache_site_packages
          \<and> bootstrap_extract compiler_fails s1 archive0 cache_site_packages env_both = (None, s1))"
proof -
  have e: "fs_exists fs_published cache_dir" "fs_exists fs_published cache_site_packages"
    "fs_exists fs_published (Path True [''home'', ''u'', ''.shiv''])"
    by (simp_all add: fs_exists_def fs_published_def)
  have f: "\<not> force_extract env_both" by (simp add: env_both_def)
  have l: "fs_log fs_published = []" by (simp add: fs_published_def)
  from extraction_skipped_when_published
    [of fs_published cache_dir False compiler_fails archive0 True 0 cache_site_packages env_both]
  have b: "bootstrap_extract compiler_fails fs_published archive0 cache_site_packages env_both
      = (None, fs_published)"
    and a: "fst (extract_site_packages compiler_fails fs_published archive0 cache_dir True 0 False) = None"
      "fs_log (snd (extract_site_packages compiler_fails fs_published archive0 cache_dir True 0 False))
        = [AcquireLock (Path True [''home'', ''u'', ''.shiv'', ''.app.pyz_b1_lock'']),
           ReleaseLock (Path True [''home'', ''u'', ''.shiv'', ''.app.pyz_b1_lock''])]"
    using e f by (simp_all add: Let_def cache_dir_names l)
  have p: "fs_paths (snd (extract_site_packages compiler_fails fs_published archive0 cache_dir True 0 False))
      = fs_paths fs_published @ [Path True [''home'', ''u'', ''.shiv'', ''.app.pyz_b1_lock'']]"
    using e by (simp add: extract_site_packages_skip Let_def cache_dir_names release_lock_def
        acquire_lock_def)
  from a p have x: "extract_site_packages compiler_fails fs_published archive0 cache_dir True 0 False
     = (None, fs_published\<lparr>
          fs_paths := fs_paths fs_published @ [Path True [''home'', ''u'', ''.shiv'', ''.app.pyz_b1_lock'']],
          fs_log := [AcquireLock (Path True [''home'', ''u'', ''.shiv'', ''.app.pyz_b1_lock'']),
                     ReleaseLock (Path True [''home'', ''u'', ''.shiv'', ''.app.pyz_b1_lock''])]\<rparr>)"
    by (cases "extract_site_packages compiler_fails fs_published archive0 cache_dir True 0 False")
      (simp add: fs_published_def)
  have h: "cache_site_packages = Path True ([''home'', ''u'', ''.shiv''] @ [''app.pyz_b1'', ''site-packages''])
      \<and> ''app.pyz_b1'' \<noteq> [] \<and> CHR ''/'' \<notin> set ''app.pyz_b1''
      \<and> (''site-packages/app.py'', 2175008768) \<in> set archive0
      \<and> prefix ''site-packages/'' ''site-packages/app.py''
      \<and> \<not> force_extract env_both \<and> (compile_pyc env_both \<longrightarrow> 0 \<le> compile_workers env_both)
      \<and> \<not> fs_exists fs0 (path_parent cache_site_packages)"
    by (simp add: cache_site_packages_def archive0_def env_both_def fs_exists_def fs0_def
        path_parent_def)
  from extraction_skipped_when_published
    [of fs0 cache_dir False compiler_fails archive0 True 0 cache_site_packages env_both,
      THEN conjunct2, THEN conjunct2, rule_format, OF h]
  have y: "\<exists>s1. bootstrap_extract compiler_fails fs0 archive0 cache_site_packages env_both = (None, s1)
          \<and> fs_exists s1 cache_site_packages
          \<and> bootstrap_extract compiler_fails s1 archive0 cache_site_packages env_both = (None, s1)" .
  from x b y show ?thesis by blast
qed

text \<open>
  C7, as the claim states it, fails: \<open>compileall.compile_dir\<close> is called outside any
  \<open>try\<close>, so an exception of the compile step leaves \<open>extract_site_packages\<close>. With a
  negative number of workers \<open>compile_dir\<close> raises \<open>ValueError\<close>: the lock is released, and
  there is neither a removal nor a rename.
\<close>

theorem negative_workers_abort_counterexample:
  "fst (extract_site_packages compiler_fails fs0 archive0 cache_dir True (- 1) False)
     = Some (ValueError ''workers must be greater or equal to 0'')
   \<and> fs_log (snd (extract_site_packages compiler_fails fs0 archive0 cache_dir True (- 1) False))
     = [Mkdir (Path True [''home'', ''u'', ''.shiv'']),
        AcquireLock (Path True [''home'', ''u'', ''.shiv'', ''.app.pyz_b1_lock'']),
        Extract ''site-packages/app.py'' (Path True [''home'', ''u'', ''.shiv'', ''app.pyz_b1.tmp'']),
        Chmod (Path True [''home'', ''u'', ''.shiv'', ''app.pyz_b1.tmp'', ''site-packages'', ''app.py''])
          33188,
        ReleaseLock (Path True [''home'', ''u'', ''.shiv'', ''.app.pyz_b1_lock''])]"
  unfolding extract_site_packages_def Let_def cache_dir_names
  by (simp add: extract_archive0 compile_dir_def fs0_def fs_exists_def mkdir_parents_def
      acquire_lock_def release_lock_def cache_dir_def extract_target_def in_with_ancestors
      under_def)

text \<open>
  C7, amended: when compilation is requested with a number of workers that is not
  negative, the extractor goes on after the compile step whatever the step reports (whether
  or not every file compiled): for an archive with an entry of the \<open>site-packages\<close>
  namespace, extraction into a target that is absent or forced ends without error, and
  after the compile step it removes the target if it existed, renames the temporary
  directory to the target, and releases the lock. The compile step is not guarded: with a
  negative number of workers its \<open>ValueError\<close> leaves the extractor, which has then created
  directories, taken the lock and extracted, releases the lock, and neither removes nor
  renames anything.
\<close>

theorem compile_outcome_does_not_abort:
  assumes t: "target_path = Path a (pc @ [name])" and n: "name \<noteq> []" "CHR ''/'' \<notin> set name"
    and c: "\<not> fs_exists s target_path \<or> force"
    and f: "(f, attr) \<in> set archive" "prefix ''site-packages'' f"
  shows "let tmp = Path a (pc @ [name @ ''.tmp'']);
             lock = Path a (pc @ [''.'' @ name @ ''_lock'']);
             result = extract_site_packages compiler s archive target_path True workers force
         in (0 \<le> workers \<longrightarrow>
               fst result = None
             \<and> (\<exists>pre. fs_log (snd result)
                    = fs_log s @ pre @ [CompileDir tmp workers]
                      @ (if fs_exists s target_path then [Rmtree target_path] else [])
                      @ [Move tmp target_path, ReleaseLock lock]))
          \<and> (workers < 0 \<longrightarrow>
               fst result = Some (ValueError ''workers must be greater or equal to 0'')
             \<and> (\<exists>pre. fs_log (snd result) = fs_log s @ pre @ [ReleaseLock lock]
                   \<and> (\<forall>op \<in> set pre. (\<exists>p. op = Mkdir p) \<or> (\<exists>p. op = AcquireLock p)
                          \<or> (\<exists>f d. op = Extract f d) \<or> (\<exists>p m. op = Chmod p m))))"
proof -
  have pos: "fst (extract_site_packages compiler s archive target_path True workers force) = None
      \<and> (\<exists>pre. fs_log (snd (extract_site_packages compiler s archive target_path True workers force))
            = fs_log s @ pre @ [CompileDir (Path a (pc @ [name @ ''.tmp''])) workers]
              @ (if fs_exists s target_path then [Rmtree target_path] else [])
              @ [Move (Path a (pc @ [name @ ''.tmp''])) target_path,
                 ReleaseLock (Path a (pc @ [''.'' @ name @ ''_lock'']))])"
    if w: "0 \<le> workers"
  proof -
    from w have "True \<longrightarrow> 0 \<le> workers" by simp
    from extraction_publishes [OF this t n c f, of compiler]
    obtain pre s' where
      "extract_site_packages compiler s archive target_path True workers force = (None, s')"
      "fs_log s' = fs_log s @ pre @ [CompileDir (Path a (pc @ [name @ ''.tmp''])) workers]
         @ (if fs_exists s target_path then [Rmtree target_path] else [])
         @ [Move (Path a (pc @ [name @ ''.tmp''])) target_path,
            ReleaseLock (Path a (pc @ [''.'' @ name @ ''_lock'']))]"
      by auto
    then show ?thesis by auto
  qed
  have neg: "fst (extract_site_packages compiler s archive target_path True workers force)
        = Some (ValueError ''workers must be greater or equal to 0'')
      \<and> (\<exists>pre. fs_log (snd (extract_site_packages compiler s archive target_path True workers force))
              = fs_log s @ pre @ [ReleaseLock (Path a (pc @ [''.'' @ name @ ''_lock'']))]
            \<and> (\<forall>op \<in> set pre. (\<exists>p. op = Mkdir p) \<or> (\<exists>p. op = AcquireLock p)
                   \<or> (\<exists>f d. op = Extract f d) \<or> (\<exists>p m. op = Chmod p m)))"
    if w: "workers < 0"
  proof -
    from extraction_aborts_when_compile_raises [OF w t n c, of compiler archive]
    obtain pre s' where
      "extract_site_packages compiler s archive target_path True workers force
         = (Some (ValueError ''workers must be greater or equal to 0''), s')"
      "fs_log s' = fs_log s @ pre @ [ReleaseLock (Path a (pc @ [''.'' @ name @ ''_lock'']))]"
      "\<forall>op \<in> set pre. (\<exists>p. op = Mkdir p) \<or> (\<exists>p. op = AcquireLock p)
          \<or> (\<exists>f d. op = Extract f d) \<or> (\<exists>p m. op = Chmod p m)"
      by blast
    then show ?thesis by auto
  qed
  show ?thesis
    unfolding Let_def using pos neg by blast
qed

theorem compile_outcome_does_not_abort_witness:
  "fst (extract_site_packages compiler_fails fs0 archive0 cache_dir True 0 False) = None
   \<and> (\<exists>pre. fs_log (snd (extract_site_packages compiler_fails fs0 archive0 cache_dir True 0 False))
         = pre @ [CompileDir (Path True [''home'', ''u'', ''.shiv'', ''app.pyz_b1.tmp'']) 0,
                  Move (Path True [''home'', ''u'', ''.shiv'', ''app.pyz_b1.tmp'']) cache_dir,
                  ReleaseLock (Path True [''home'', ''u'', ''.shiv'', ''.app.pyz_b1_lock''])])
   \<and> fst (extract_site_packages compiler_fails fs0 archive0 cache_dir True (- 2) False)
       = Some (ValueError ''workers must be greater or equal to 0'')"
proof -
  have 2: "cache_dir = Path True ([''home'', ''u'', ''.shiv''] @ [''app.pyz_b1''])"
    by (simp add: cache_dir_def)
  have 3: "''app.pyz_b1'' \<noteq> []" "CHR ''/'' \<notin> set ''app.pyz_b1''" by simp_all
  have 4: "\<not> fs_exists fs0 cache_dir \<or> False"
    by (simp add: fs_exists_def fs0_def cache_dir_def)
  have 5: "(''site-packages/app.py'', 2175008768) \<in> set archive0"
    "prefix ''site-packages'' ''site-packages/app.py''"
    by (simp_all add: archive0_def)
  from 4 have 6: "\<not> fs_exists fs0 cache_dir" by simp
  have 7: "fs_log fs0 = []" by (simp add: fs0_def)
  have a: "fst (extract_site_packages compiler_fails fs0 archive0 cache_dir True 0 False) = None
   \<and> (\<exists>pre. fs_log (snd (extract_site_packages compiler_fails fs0 archive0 cache_dir True 0 False))
         = pre @ [CompileDir (Path True [''home'', ''u'', ''.shiv'', ''app.pyz_b1.tmp'']) 0,
                  Move (Path True [''home'', ''u'', ''.shiv'', ''app.pyz_b1.tmp'']) cache_dir,
                  ReleaseLock (Path True [''home'', ''u'', ''.shiv'', ''.app.pyz_b1_lock''])])"
    using compile_outcome_does_not_abort [OF 2 3 4 5, of compiler_fails 0]
    by (simp add: Let_def 6 7)
  have b: "fst (extract_site_packages compiler_fails fs0 archive0 cache_dir True (- 2) False)
       = Some (ValueError ''workers must be greater or equal to 0'')"
    using compile_outcome_does_not_abort [OF 2 3 4 5, of compiler_fails "- 2"]
    by (simp add: Let_def)
  from a b show ?thesis by blast
qed

subsection \<open>Reordering the search path\<close>

lemma first_sitedir_from_Some:
  "first_sitedir_from i xs = Some k \<Longrightarrow>
     i \<le> k \<and> k - i < length xs \<and> is_sitedir (xs ! (k - i))
     \<and> (\<forall>j < k - i. \<not> is_sitedir (xs ! j))"
proof (induction xs arbitrary: i)
  case Nil
  then show ?case by simp
next
  case (Cons x xs)
  show ?case
  proof (cases "is_sitedir x")
    case True
    with Cons.prems show ?thesis by simp
  next
    case False
    with Cons.prems have r: "first_sitedir_from (Suc i) xs = Some k" by simp
    from Cons.IH [OF r] have ih: "Suc i \<le> k" "k - Suc i < length xs"
      "is_sitedir (xs ! (k - Suc i))" "\<forall>j < k - Suc i. \<not> is_sitedir (xs ! j)"
      by simp_all
    from ih(1) have e: "k - i = Suc (k - Suc i)" by simp
    show ?thesis
      using ih False unfolding e by (auto simp: nth_Cons split: nat.splits)
  qed
qed

lemma first_sitedir_from_None:
  "first_sitedir_from i xs = None \<longleftrightarrow> (\<forall>x \<in> set xs. \<not> is_sitedir x)"
  by (induction xs arbitrary: i) auto

lemma extend_sys_path_eq:
  "fst (extend_sys_path sys_path added)
     = (let index = index_or (get_first_sitedir_index sys_path) (length sys_path)
        in take index sys_path @ added @ drop index sys_path)"
proof -
  have le: "index_or (get_first_sitedir_index sys_path) (length sys_path) \<le> length sys_path"
    using first_sitedir_from_Some [of 0 sys_path]
    by (auto simp: index_or_def get_first_sitedir_index_def split: option.splits)
  then show ?thesis
    by (simp add: extend_sys_path_def Let_def slice_def)
qed

lemma extend_sys_path_before_sitedir:
  assumes "get_first_sitedir_index sys_path = Some k" and "0 < k"
  shows "fst (extend_sys_path sys_path added) = take k sys_path @ added @ drop k sys_path"
  using assms by (simp add: extend_sys_path_eq index_or_def)

lemma extend_sys_path_sitedir_first:
  assumes "get_first_sitedir_index sys_path = Some 0"
  shows "fst (extend_sys_path sys_path added) = sys_path @ added"
  using assms by (simp add: extend_sys_path_eq index_or_def)

lemma is_sitedir_ex1: "is_sitedir ''/usr/lib/python3/site-packages''"
  by (simp add: is_sitedir_def path_stem_def path_name_def parse_path_def)

text \<open>
  C2: the entries added by site registration are to stand immediately before the first
  dependency directory of the starting path, at index \<open>k\<close>. For \<open>0 < k\<close> they do
  (\<open>extend_sys_path_before_sitedir\<close>). For \<open>k = 0\<close> they do not: \<open>index = 0 or length\<close> is
  \<open>length\<close>, and the added entries stay at the end of the path, behind the dependency
  directory that was found (\<open>extend_sys_path_sitedir_first\<close>). The theorem evaluates
  \<open>extend_sys_path\<close> on such a path.
\<close>

theorem extend_sys_path_sitedir_at_0:
  "get_first_sitedir_index [''/usr/lib/python3/site-packages'', ''/usr/lib/python3.11''] = Some 0
   \<and> extend_sys_path [''/usr/lib/python3/site-packages'', ''/usr/lib/python3.11'']
        [''/home/u/.shiv/app.pyz_b1/site-packages'']
      = ([''/usr/lib/python3/site-packages'', ''/usr/lib/python3.11'',
          ''/home/u/.shiv/app.pyz_b1/site-packages''],
         [''/home/u/.shiv/app.pyz_b1/site-packages''])"
  by (simp add: get_first_sitedir_index_def is_sitedir_ex1 extend_sys_path_def index_or_def
      slice_def)

subsection \<open>Exporting the new entries to \<open>PYTHONPATH\<close>\<close>

lemma set_first_occurrences: "set (first_occurrences xs) = set xs"
  by (induction xs) auto

lemma distinct_first_occurrences: "distinct (first_occurrences xs)"
  by (induction xs) (auto simp: set_first_occurrences)

lemma py_index_Cons: "py_index (x # xs) y = (if y = x then 0 else Suc (py_index xs y))"
  by (simp add: py_index_def)

lemma py_index_inj: "x \<in> set xs \<Longrightarrow> py_index xs x = py_index xs y \<Longrightarrow> x = y"
  by (induction xs) (auto simp: py_index_Cons split: if_splits)

lemma sorted_first_occurrences: "sorted (map (py_index xs) (first_occurrences xs))"
proof (induction xs)
  case Nil
  show ?case by simp
next
  case (Cons x xs)
  let ?rest = "filter (\<lambda>y. y \<noteq> x) (first_occurrences xs)"
  have "sorted (map (py_index xs) ?rest)"
    using Cons.IH by (rule sorted_filter)
  then have s1: "sorted (map Suc (map (py_index xs) ?rest))"
    by (simp add: sorted_map)
  have eq: "map (py_index (x # xs)) ?rest = map Suc (map (py_index xs) ?rest)"
    by (simp add: py_index_Cons cong: map_cong)
  have s2: "sorted (map (py_index (x # xs)) ?rest)"
    unfolding eq by (rule s1)
  have "py_index (x # xs) x = 0"
    by (simp add: py_index_Cons)
  with s2 show ?case
    by simp
qed

lemma sort_by_index_any_enumeration:
  assumes "distinct ys" and "set ys = set xs"
  shows "sort_key (py_index xs) ys = first_occurrences xs"
proof -
  let ?f = "py_index xs"
  have inj: "inj_on ?f (set xs)"
    by (rule inj_onI) (erule py_index_inj)
  have "map ?f (sort_key ?f ys) = map ?f (first_occurrences xs)"
  proof (rule sorted_distinct_set_unique)
    show "sorted (map ?f (sort_key ?f ys))" by simp
    show "distinct (map ?f (sort_key ?f ys))"
      using assms inj by (simp add: distinct_map)
    show "sorted (map ?f (first_occurrences xs))" by (rule sorted_first_occurrences)
    show "distinct (map ?f (first_occurrences xs))"
      using inj by (simp add: distinct_map distinct_first_occurrences set_first_occurrences)
    show "set (map ?f (sort_key ?f ys)) = set (map ?f (first_occurrences xs))"
      using assms by (simp add: set_first_occurrences)
  qed
  moreover have "inj_on ?f (set (sort_key ?f ys) \<union> set (first_occurrences xs))"
    using inj assms by (simp add: set_first_occurrences)
  ultimately show ?thesis
    by (rule inj_on_map_eq_map [THEN iffD1, rotated])
qed

lemma first_occurrences_append:
  "first_occurrences (xs @ ys) = first_occurrences xs @ filter (\<lambda>y. y \<notin> set xs) (first_occurrences ys)"
proof (induction xs)
  case Nil
  show ?case by simp
next
  case (Cons x xs)
  have "filter (\<lambda>y. y \<noteq> x) (filter (\<lambda>y. y \<notin> set xs) (first_occurrences ys))
      = filter (\<lambda>y. y \<notin> set (x # xs)) (first_occurrences ys)"
    by (auto intro: filter_cong)
  with Cons show ?case by simp
qed

text \<open>
  The sort of line 294 gives the same list for every enumeration of the set
  (\<open>sort_by_index_any_enumeration\<close>), so modelling \<open>set(python_path)\<close> by \<open>remdups\<close> loses
  nothing.
\<close>

text \<open>
  C9: for every environment and every list of added paths, the list that
  \<open>extend_python_path\<close> joins into \<open>PYTHONPATH\<close> has no duplicates, consists of the entries
  already there and the added ones, and keeps the existing entries first, in the order of
  their first occurrences, followed by the added entries that were not there, in the order
  of their first occurrences.
\<close>

theorem extend_python_path_stable_merge:
  "let existing = python_path_entries pathsep environ;
       merged = merged_python_path pathsep environ additional_paths
   in extend_python_path pathsep environ additional_paths
        = environ(''PYTHONPATH'' \<mapsto> join_with pathsep merged)
    \<and> distinct merged
    \<and> set merged = set existing \<union> set additional_paths
    \<and> merged = first_occurrences existing
               @ filter (\<lambda>p. p \<notin> set existing) (first_occurrences additional_paths)"
proof -
  let ?xs = "python_path_entries pathsep environ @ additional_paths"
  have m: "merged_python_path pathsep environ additional_paths = first_occurrences ?xs"
    unfolding merged_python_path_def Let_def
    by (rule sort_by_index_any_enumeration) simp_all
  have d: "distinct (first_occurrences ?xs)"
    by (rule distinct_first_occurrences)
  have st: "set (first_occurrences ?xs)
      = set (python_path_entries pathsep environ) \<union> set additional_paths"
    by (simp add: set_first_occurrences)
  have e: "extend_python_path pathsep environ additional_paths
      = environ(''PYTHONPATH'' \<mapsto> join_with pathsep (first_occurrences ?xs))"
    by (simp add: extend_python_path_def m)
  show ?thesis
    unfolding Let_def m
    using d st e first_occurrences_append [of "python_path_entries pathsep environ" additional_paths]
    by blast
qed

theorem extend_python_path_stable_merge_witness:
  "extend_python_path (CHR '':'') [''PYTHONPATH'' \<mapsto> ''/a:/b:/a''] [''/c'', ''/b'', ''/c'']
     = [''PYTHONPATH'' \<mapsto> ''/a:/b:/c'']"
  using extend_python_path_stable_merge
    [of "CHR '':''" "[''PYTHONPATH'' \<mapsto> ''/a:/b:/a'']" "[''/c'', ''/b'', ''/c'']"]
  by (simp add: Let_def python_path_entries_def)

subsection \<open>The integrity check\<close>

lemma check_files_find:
  "check_files sha site_packages recorded fs =
     (case find (violates sha recorded) fs of
        None \<Rightarrow> Inr ()
      | Some f \<Rightarrow> Inl (RuntimeError
           (modified_message (str_path (join_paths site_packages (Path False (fst f)))))))"
  by (induction fs) (auto simp: violates_def)

lemma check_files_raises_iff:
  "(\<exists>e. check_files sha site_packages recorded fs = Inl e)
     \<longleftrightarrow> (\<exists>f \<in> set fs. violates sha recorded f)"
  by (induction fs) (auto simp: violates_def)

lemma rglob_tree1:
  "rglob_py tree1 = [([''pkg'', ''__init__.py''], ''x = 1''), ([''pkg'', ''mod.py''], ''y = 3''),
      ([''tool.py''], ''z'')]"
  by (simp add: rglob_py_def tree1_def matches_py_def)

lemma find_tree1:
  "find (violates toy_digest hashes1) (rglob_py tree1) = Some ([''pkg'', ''mod.py''], ''y = 3'')"
  by (simp add: rglob_tree1 violates_def toy_digest_def hashes1_def str_path_def)

text \<open>
  C4: \<open>ensure_no_modify\<close> raises if and only if one of the \<open>.py\<close> files found below the root
  has a digest that differs from the value recorded for its relative path, a path without a
  recorded value included; the error it raises is the \<open>RuntimeError\<close> whose message names
  the full path of the first such file of the walk and tells the user to run again with
  \<open>SHIV_FORCE_EXTRACT=1\<close>.
\<close>

theorem ensure_no_modify_first_violation:
  "((\<exists>e. ensure_no_modify sha t site_packages recorded = Inl e)
      \<longleftrightarrow> (\<exists>f \<in> set (rglob_py t). violates sha recorded f))
   \<and> (\<forall>f. find (violates sha recorded) (rglob_py t) = Some f \<longrightarrow>
         ensure_no_modify sha t site_packages recorded
           = Inl (RuntimeError
               (''A Python source file has been modified! File: ''
                @ str_path (join_paths site_packages (Path False (fst f)))
                @ ''. Try again with SHIV_FORCE_EXTRACT=1 to overwrite the modified source file(s).'')))"
proof -
  have a: "(\<exists>e. ensure_no_modify sha t site_packages recorded = Inl e)
      \<longleftrightarrow> (\<exists>f \<in> set (rglob_py t). violates sha recorded f)"
    unfolding ensure_no_modify_def by (rule check_files_raises_iff)
  have b: "find (violates sha recorded) (rglob_py t) = Some f \<Longrightarrow>
      ensure_no_modify sha t site_packages recorded
        = Inl (RuntimeError (modified_message
            (str_path (join_paths site_packages (Path False (fst f))))))" for f
    by (simp add: ensure_no_modify_def check_files_find)
  show ?thesis
    using a b unfolding modified_message_def by blast
qed

theorem ensure_no_modify_first_violation_witness:
  "ensure_no_modify toy_digest tree1 cache_site_packages hashes1
     = Inl (RuntimeError
         (''A Python source file has been modified! File: ''
          @ ''/home/u/.shiv/app.pyz_b1/site-packages/pkg/mod.py''
          @ ''. Try again with SHIV_FORCE_EXTRACT=1 to overwrite the modified source file(s).''))"
  using ensure_no_modify_first_violation [of toy_digest tree1 cache_site_packages hashes1]
  by (simp add: find_tree1 str_path_def join_paths_def cache_site_packages_def)

text \<open>
  C10: a file below the root whose name does not match \<open>*.py\<close> is not among the files the
  check reads: the check gives the same result whatever the bytes of the file are, and the
  same result as on the tree without the file.
\<close>

theorem ensure_no_modify_ignores_other_files:
  assumes "rel = [] \<or> \<not> matches_py (last rel)"
  shows "ensure_no_modify sha (before @ (rel, content) # after) site_packages recorded
           = ensure_no_modify sha (before @ (rel, content') # after) site_packages recorded
       \<and> ensure_no_modify sha (before @ (rel, content) # after) site_packages recorded
           = ensure_no_modify sha (before @ after) site_packages recorded"
  using assms by (auto simp: ensure_no_modify_def rglob_py_def)

theorem ensure_no_modify_ignores_other_files_witness:
  "ensure_no_modify toy_digest
      ([([''pkg'', ''__init__.py''], ''x = 1'')] @ ([''pkg'', ''data.bin''], ''0101'') # [])
      cache_site_packages hashes1
     = ensure_no_modify toy_digest
      ([([''pkg'', ''__init__.py''], ''x = 1'')] @ ([''pkg'', ''data.bin''], ''tampered'') # [])
      cache_site_packages hashes1
   \<and> ensure_no_modify toy_digest
      ([([''pkg'', ''__init__.py''], ''x = 1'')] @ ([''pkg'', ''data.bin''], ''0101'') # [])
      cache_site_packages hashes1 = Inr ()"
  using ensure_no_modify_ignores_other_files
    [of "[''pkg'', ''data.bin'']" toy_digest "[([''pkg'', ''__init__.py''], ''x = 1'')]" "''0101''"
      "[]" cache_site_packages hashes1 "''tampered''"]
  by (simp add: matches_py_def ensure_no_modify_def rglob_py_def toy_digest_def hashes1_def
      str_path_def)

subsection \<open>The preamble\<close>

lemma preamble_bin_sh:
  "joinpath (joinpath cache_site_packages ''bin'') ''setup.sh''
     = Path True [''home'', ''u'', ''.shiv'', ''app.pyz_b1'', ''site-packages'', ''bin'', ''setup.sh'']"
  by (simp add: joinpath_def join_paths_def parse_path_def cache_site_packages_def)

lemma preamble_bin_py:
  "joinpath (joinpath cache_site_packages ''bin'') ''setup.py''
     = Path True [''home'', ''u'', ''.shiv'', ''app.pyz_b1'', ''site-packages'', ''bin'', ''setup.py'']"
  by (simp add: joinpath_def join_paths_def parse_path_def cache_site_packages_def)

lemma suffix_sh:
  "path_suffix (Path True [''home'', ''u'', ''.shiv'', ''app.pyz_b1'', ''site-packages'', ''bin'', ''setup.sh'']) = ''.sh''"
  by (simp add: path_suffix_def path_name_def)

lemma suffix_py:
  "path_suffix (Path True [''home'', ''u'', ''.shiv'', ''app.pyz_b1'', ''site-packages'', ''bin'', ''setup.py'']) = ''.py''"
  by (simp add: path_suffix_def path_name_def)

text \<open>
  C3, as the claim states it, fails for a preamble run as a subprocess: \<open>subprocess.run\<close> is
  called without \<open>check\<close> and its result is dropped, so a preamble that ends with return
  code 1 does not stop the bootstrap, which goes on to dispatch.
\<close>

theorem preamble_nonzero_exit_counterexample:
  "preamble env_preamble_sh = Some ''setup.sh''
   \<and> preamble_then_dispatch (\<lambda>p. None) (\<lambda>p. Inr 1) env_preamble_sh cache_site_packages
       = Inr (InvokeEntryPoint ''app.main:run'')"
  by (simp add: preamble_then_dispatch_def run_preamble_def preamble_bin_sh suffix_sh
      env_preamble_sh_def env_both_def dispatch_def truthy_def)

text \<open>
  C3, amended: for a configured preamble, an exception raised by a \<open>.py\<close> preamble run in
  process (a \<open>sys.exit\<close> included) and a failure to start a subprocess preamble end the
  bootstrap before dispatch; a subprocess preamble that was started and has ended does
  not, whatever its return code: the bootstrap goes on to dispatch.
\<close>

theorem preamble_outcome:
  assumes "preamble env = Some name" and "name \<noteq> []"
    and "preamble_bin = joinpath (joinpath site_packages ''bin'') name"
  shows "(path_suffix preamble_bin = ''.py'' \<and> run_path preamble_bin = Some e \<longrightarrow>
            preamble_then_dispatch run_path subprocess_run env site_packages = Inl e)
       \<and> (path_suffix preamble_bin \<noteq> ''.py'' \<and> subprocess_run preamble_bin = Inl e \<longrightarrow>
            preamble_then_dispatch run_path subprocess_run env site_packages = Inl e)
       \<and> (path_suffix preamble_bin \<noteq> ''.py'' \<and> subprocess_run preamble_bin = Inr returncode \<longrightarrow>
            preamble_then_dispatch run_path subprocess_run env site_packages
              = Inr (dispatch env site_packages))"
  using assms by (simp add: preamble_then_dispatch_def run_preamble_def Let_def)

theorem preamble_outcome_witness:
  "preamble_then_dispatch (\<lambda>p. Some (SystemExit 1)) (\<lambda>p. Inr 0) env_preamble_py cache_site_packages
     = Inl (SystemExit 1)
   \<and> preamble_then_dispatch (\<lambda>p. None) (\<lambda>p. Inl (OSError ''Exec format error''))
        env_preamble_sh cache_site_packages
     = Inl (OSError ''Exec format error'')
   \<and> preamble_then_dispatch (\<lambda>p. None) (\<lambda>p. Inr (- 9)) env_preamble_sh cache_site_packages
     = Inr (dispatch env_preamble_sh cache_site_packages)"
  using
    preamble_outcome [of env_preamble_py "''setup.py''" _ cache_site_packages
      "\<lambda>p. Some (SystemExit 1)" "SystemExit 1" "\<lambda>p. Inr 0" 0, OF _ _ refl]
    preamble_outcome [of env_preamble_sh "''setup.sh''" _ cache_site_packages
      "\<lambda>p. None" "OSError ''Exec format error''" "\<lambda>p. Inl (OSError ''Exec format error'')" 0,
      OF _ _ refl]
    preamble_outcome [of env_preamble_sh "''setup.sh''" _ cache_site_packages
      "\<lambda>p. None" "OSError []" "\<lambda>p. Inr (- 9)" "- 9", OF _ _ refl]
  by (simp add: env_preamble_py_def env_preamble_sh_def env_both_def preamble_bin_sh
      preamble_bin_py suffix_sh suffix_py)

subsection \<open>Entry dispatch\<close>

text \<open>
  C1, as the claim states it, fails: with an entry point and a script both configured and
  interactive mode not forced, the dispatcher runs the script, and the entry point is not
  invoked.
\<close>

theorem dispatch_both_set_counterexample:
  "entry_point env_both = Some ''app.main:run'' \<and> script env_both = Some ''tool''
   \<and> \<not> interpreter env_both
   \<and> dispatch env_both cache_site_packages
       = RunScript (Path True [''home'', ''u'', ''.shiv'', ''app.pyz_b1'', ''site-packages'', ''bin'', ''tool''])
   \<and> dispatch env_both cache_site_packages \<noteq> InvokeEntryPoint ''app.main:run''"
  by (simp add: env_both_def cache_site_packages_def dispatch_def truthy_def joinpath_def
      join_paths_def parse_path_def)

text \<open>
  C1, amended: when interactive mode is not forced, a script name that is set and not empty
  is run as \<open>__main__\<close> from the \<open>bin\<close> directory of the cache, whether an entry point is
  configured or not; the entry point is invoked when it is set and the script name is unset
  or empty; and a script name is run when it is set and no entry point is.
\<close>

theorem dispatch_precedence:
  assumes "\<not> interpreter env"
  shows "(\<forall>s. script env = Some s \<and> s \<noteq> [] \<longrightarrow>
            dispatch env site_packages = RunScript (joinpath (joinpath site_packages ''bin'') s))
       \<and> (\<forall>ep. entry_point env = Some ep \<and> \<not> truthy (script env) \<longrightarrow>
            dispatch env site_packages = InvokeEntryPoint ep)
       \<and> (\<forall>s. entry_point env = None \<and> script env = Some s \<longrightarrow>
            dispatch env site_packages = RunScript (joinpath (joinpath site_packages ''bin'') s))"
  using assms by (auto simp: dispatch_def truthy_def split: option.splits prod.splits bool.splits)

theorem dispatch_precedence_witness:
  "dispatch env_both cache_site_packages
     = RunScript (joinpath (joinpath cache_site_packages ''bin'') ''tool'')
   \<and> dispatch (env_both\<lparr>script := None\<rparr>) cache_site_packages = InvokeEntryPoint ''app.main:run''
   \<and> dispatch (env_both\<lparr>entry_point := None\<rparr>) cache_site_packages
     = RunScript (joinpath (joinpath cache_site_packages ''bin'') ''tool'')"
  using dispatch_precedence [of env_both cache_site_packages]
    dispatch_precedence [of "env_both\<lparr>script := None\<rparr>" cache_site_packages]
    dispatch_precedence [of "env_both\<lparr>entry_point := None\<rparr>" cache_site_packages]
  by (simp add: env_both_def truthy_def)

end
